theory Spec2Isabelle
  imports Main "HOL-Library.AList"
begin

section \<open>JavaScript strings and values\<close>

text \<open>
  A JavaScript string is modelled as a \<^typ>\<open>string\<close>: one \<^typ>\<open>char\<close> per UTF-16 code
  unit, for code units below 256 (the Latin-1 range). \<open>length\<close> is then the string's
  \<^verbatim>\<open>length\<close>. Code units from 256 on are outside the model.
\<close>

text \<open>
  \<^verbatim>\<open>String.prototype.trim\<close> removes WhiteSpace and LineTerminator code units from both
  ends. Below 256 these are TAB, LF, VT, FF, CR, SPACE and NBSP.
\<close>

definition isWhiteSpace :: "char \<Rightarrow> bool" where
  "isWhiteSpace c \<longleftrightarrow>
     c \<in> set [CHR 0x09, CHR 0x0A, CHR 0x0B, CHR 0x0C, CHR 0x0D, CHR 0x20, CHR 0xA0]"

definition trim :: "string \<Rightarrow> string" where
  "trim s = rev (dropWhile isWhiteSpace (rev (dropWhile isWhiteSpace s)))"

text \<open>
  \<^verbatim>\<open>String.prototype.toLowerCase\<close>: below 256 the letters with a lower-case partner are
  A-Z and the Latin-1 capitals 0xC0-0xDE without the multiplication sign 0xD7.
\<close>

definition upperCaseLetters :: "char list" where
  "upperCaseLetters = ''ABCDEFGHIJKLMNOPQRSTUVWXYZ'' @
     [CHR 0xC0, CHR 0xC1, CHR 0xC2, CHR 0xC3, CHR 0xC4, CHR 0xC5, CHR 0xC6, CHR 0xC7,
      CHR 0xC8, CHR 0xC9, CHR 0xCA, CHR 0xCB, CHR 0xCC, CHR 0xCD, CHR 0xCE, CHR 0xCF,
      CHR 0xD0, CHR 0xD1, CHR 0xD2, CHR 0xD3, CHR 0xD4, CHR 0xD5, CHR 0xD6,
      CHR 0xD8, CHR 0xD9, CHR 0xDA, CHR 0xDB, CHR 0xDC, CHR 0xDD, CHR 0xDE]"

definition lowerCaseLetters :: "char list" where
  "lowerCaseLetters = ''abcdefghijklmnopqrstuvwxyz'' @
     [CHR 0xE0, CHR 0xE1, CHR 0xE2, CHR 0xE3, CHR 0xE4, CHR 0xE5, CHR 0xE6, CHR 0xE7,
      CHR 0xE8, CHR 0xE9, CHR 0xEA, CHR 0xEB, CHR 0xEC, CHR 0xED, CHR 0xEE, CHR 0xEF,
      CHR 0xF0, CHR 0xF1, CHR 0xF2, CHR 0xF3, CHR 0xF4, CHR 0xF5, CHR 0xF6,
      CHR 0xF8, CHR 0xF9, CHR 0xFA, CHR 0xFB, CHR 0xFC, CHR 0xFD, CHR 0xFE]"

definition toLowerChar :: "char \<Rightarrow> char" where
  "toLowerChar c =
     (case map_of (zip upperCaseLetters lowerCaseLetters) c of
        Some l \<Rightarrow> l
      | None \<Rightarrow> c)"

definition toLowerCase :: "string \<Rightarrow> string" where
  "toLowerCase s = map toLowerChar s"

text \<open>
  \<^verbatim>\<open>s.substring(a, b)\<close>: both indices are clamped to \<open>[0, s.length]\<close> and swapped when
  \<open>a > b\<close>. \<^verbatim>\<open>s.substring(a)\<close> is \<^verbatim>\<open>s.substring(a, s.length)\<close>.
\<close>

definition substring :: "string \<Rightarrow> int \<Rightarrow> int \<Rightarrow> string" where
  "substring s a b =
     (let n = int (length s);
          a' = max 0 (min a n);
          b' = max 0 (min b n);
          lo = min a' b';
          hi = max a' b'
      in take (nat (hi - lo)) (drop (nat lo) s))"

definition startsWith :: "string \<Rightarrow> string \<Rightarrow> bool" where
  "startsWith s p \<longleftrightarrow> take (length p) s = p"

definition endsWith :: "string \<Rightarrow> string \<Rightarrow> bool" where
  "endsWith s p \<longleftrightarrow> drop (length s - length p) s = p"

text \<open>
  The values \<^verbatim>\<open>JSON.parse\<close> can put under a key of the model's answer, as far as they
  are modelled: the JSON scalars, numbers being integers. Nested arrays and objects and
  non-integer numbers are outside the model.
\<close>

datatype js_value = JNull | JBoolean bool | JNumber int | JString string

text \<open>Truthiness, as \<^verbatim>\<open>if (value)\<close> and \<^verbatim>\<open>a && b\<close> test it.\<close>

fun truthy :: "js_value \<Rightarrow> bool" where
  "truthy JNull = False"
| "truthy (JBoolean b) = b"
| "truthy (JNumber n) = (n \<noteq> 0)"
| "truthy (JString s) = (s \<noteq> [])"

fun digits :: "nat \<Rightarrow> string" where
  "digits n =
     (if n < 10 then [''0123456789'' ! n]
      else digits (n div 10) @ [''0123456789'' ! (n mod 10)])"

declare digits.simps [simp del]

text \<open>
  \<^verbatim>\<open>value.toString()\<close>. On \<^verbatim>\<open>null\<close> the call throws a TypeError; the only caller
  guards it with \<^verbatim>\<open>if (field && value)\<close>, so \<open>None\<close> is never reached there. (A
  number is printed in decimal digits; JavaScript does so below \<open>10\<^sup>2\<^sup>1\<close>.)
\<close>

fun toString :: "js_value \<Rightarrow> string option" where
  "toString JNull = None"
| "toString (JBoolean b) = Some (if b then ''true'' else ''false'')"
| "toString (JNumber n) = Some (if n < 0 then CHR ''-'' # digits (nat (- n)) else digits (nat n))"
| "toString (JString s) = Some s"

section \<open>Field descriptors: \<^verbatim>\<open>lib/utils/pdf-processor.ts\<close>\<close>

text \<open>
  \<^verbatim>\<open>interface PDFField { name: string; label: string; type: string; maxLength?: number }\<close>.
  The interface is erased at run time and \<^verbatim>\<open>validatePDFFields\<close> tests
  \<^verbatim>\<open>typeof field.name\<close> and \<^verbatim>\<open>typeof field.type\<close>, so these members are values;
  \<^verbatim>\<open>maxLength\<close> is \<^verbatim>\<open>undefined\<close> (\<open>None\<close>) or an integer.
\<close>

record PDFField =
  name :: js_value
  label :: js_value
  type :: js_value
  maxLength :: "int option"

fun isString :: "js_value \<Rightarrow> bool" where
  "isString (JString s) = True"
| "isString v = False"

text \<open>
  \<^verbatim>\<open>Array.isArray(fields) && fields.every(field => typeof field.name === 'string' &&
  typeof field.type === 'string')\<close>; the argument is a list, so \<^verbatim>\<open>Array.isArray\<close> holds.
\<close>

definition validatePDFFields :: "PDFField list \<Rightarrow> bool" where
  "validatePDFFields pdfFields \<longleftrightarrow>
     list_all (\<lambda>field. isString (name field) \<and> isString (type field)) pdfFields"

text \<open>
  An object of type \<^verbatim>\<open>Record<string, T>\<close> is modelled by the list of its entries in
  the order \<^verbatim>\<open>Object.entries\<close> enumerates them; \<^verbatim>\<open>obj[k] = v\<close> is
  \<^const>\<open>AList.update\<close>, which overwrites an existing key in place and appends a new one.
  (The key \<^verbatim>\<open>__proto__\<close>, which an assignment does not store as a key, is outside the model.)
\<close>

type_synonym 'v js_record = "(string \<times> 'v) list"

text \<open>
  The body of the loop of \<^verbatim>\<open>sanitizeFieldValues\<close> for one entry
  \<^verbatim>\<open>[fieldName, value]\<close>, with \<open>sanitized\<close> the object built so far. (A truthy
  value is not \<^verbatim>\<open>null\<close>, so \<^verbatim>\<open>toString\<close> does not throw there: the branch \<open>None\<close> of
  its result is never taken, see \<open>truthy_toString\<close>.)
\<close>

definition sanitizeEntry ::
  "PDFField list \<Rightarrow> string \<times> js_value \<Rightarrow> string js_record \<Rightarrow> string js_record" where
  "sanitizeEntry pdfFields entry sanitized =
     (case entry of (fieldName, value) \<Rightarrow>
        (case find (\<lambda>f. name f = JString fieldName) pdfFields of
           None \<Rightarrow> sanitized
         | Some field \<Rightarrow>
             if truthy value then
               (case toString value of
                  None \<Rightarrow> sanitized
                | Some str \<Rightarrow>
                    (let sanitizedValue = trim str;
                         sanitizedValue =
                           (case maxLength field of
                              None \<Rightarrow> sanitizedValue
                            | Some m \<Rightarrow>
                                if m \<noteq> 0 \<and> int (length sanitizedValue) > m
                                then substring sanitizedValue 0 m
                                else sanitizedValue)
                     in AList.update fieldName sanitizedValue sanitized))
             else sanitized))"

definition sanitizeFieldValues :: "js_value js_record \<Rightarrow> PDFField list \<Rightarrow> string js_record" where
  "sanitizeFieldValues fieldValues pdfFields = fold (sanitizeEntry pdfFields) fieldValues []"

text \<open>
  The object \<^verbatim>\<open>sanitizeFieldValues\<close> returns holds strings; handed to the function
  again it is a raw value map whose values are these strings.
\<close>

definition asFieldValues :: "string js_record \<Rightarrow> js_value js_record" where
  "asFieldValues sanitized = map (\<lambda>(fieldName, s). (fieldName, JString s)) sanitized"

section \<open>The form of a PDF document, as pdf-lib presents it\<close>

text \<open>
  pdf-lib is a dependency of the repository. Its form API is modelled as far as
  \<^verbatim>\<open>extractPDFFields\<close> and \<^verbatim>\<open>fillPDFFields\<close> use it: a field is an instance of
  \<^verbatim>\<open>PDFTextField\<close> (its \<^verbatim>\<open>MaxLen\<close> and text), \<^verbatim>\<open>PDFCheckBox\<close> (checked or not),
  \<^verbatim>\<open>PDFRadioGroup\<close> or \<^verbatim>\<open>PDFDropdown\<close> (the options and the selection), or of another
  class (\<^verbatim>\<open>PDFButton\<close>, \<^verbatim>\<open>PDFOptionList\<close>, \<^verbatim>\<open>PDFSignature\<close>).
  \<^verbatim>\<open>form.getFields()\<close> is the list of the fields with their names.
\<close>

datatype pdf_field =
    PDFTextField "int option" "string option"
  | PDFCheckBox bool
  | PDFRadioGroup "string list" "string option"
  | PDFDropdown "string list" "string list"
  | PDFOtherField

type_synonym pdf_form = "(string \<times> pdf_field) list"

text \<open>
  An \<^verbatim>\<open>ArrayBuffer\<close> handed to \<^verbatim>\<open>PDFDocument.load\<close>: bytes pdf-lib cannot load, or
  bytes it loads, which are named by the form of the document they load to. The byte level
  is not modelled.
\<close>

datatype pdf_buffer = NotAPDF | PDFBytes pdf_form

text \<open>
  \<^verbatim>\<open>pdfDoc.save()\<close> is pdf-lib's and is a parameter of the functions that call it: from
  the form of the document in memory to the bytes it writes, \<open>None\<close> when it throws (as it
  does when the appearance of a changed text field cannot be encoded in the font).
\<close>

type_synonym pdf_save = "pdf_form \<Rightarrow> pdf_buffer option"

text \<open>\<^verbatim>\<open>form.getField(name)\<close>: the first field of that name; \<open>None\<close> is NoSuchFieldError.\<close>

definition getField :: "pdf_form \<Rightarrow> string \<Rightarrow> pdf_field option" where
  "getField form fieldName = map_of form fieldName"

text \<open>
  The methods of the field classes mutate the field object inside the document.
  Here they return the new field, and \<open>putField\<close> stores it in the place of the field
  \<^const>\<open>getField\<close> found.
\<close>

definition putField :: "pdf_form \<Rightarrow> string \<Rightarrow> pdf_field \<Rightarrow> pdf_form" where
  "putField form fieldName field = AList.update fieldName field form"

text \<open>
  \<^verbatim>\<open>PDFTextField.setText\<close> throws ExceededMaxLengthError when the text is longer than
  \<^verbatim>\<open>MaxLen\<close>; an empty text removes the value.
\<close>

fun setText :: "pdf_field \<Rightarrow> string \<Rightarrow> pdf_field option" where
  "setText (PDFTextField maxLen t) txt =
     (if txt \<noteq> [] \<and> (case maxLen of None \<Rightarrow> False | Some m \<Rightarrow> int (length txt) > m) then None
      else Some (PDFTextField maxLen (if txt = [] then None else Some txt)))"
| "setText field txt = None"

fun check :: "pdf_field \<Rightarrow> pdf_field" where
  "check (PDFCheckBox b) = PDFCheckBox True"
| "check field = field"

fun uncheck :: "pdf_field \<Rightarrow> pdf_field" where
  "uncheck (PDFCheckBox b) = PDFCheckBox False"
| "uncheck field = field"

fun getOptions :: "pdf_field \<Rightarrow> string list" where
  "getOptions (PDFRadioGroup opts sel) = opts"
| "getOptions (PDFDropdown opts sel) = opts"
| "getOptions field = []"

text \<open>
  \<^verbatim>\<open>PDFRadioGroup.select\<close> throws when the option is not one of the group's;
  \<^verbatim>\<open>PDFDropdown.select\<close> replaces the selection.
\<close>

fun select :: "pdf_field \<Rightarrow> string \<Rightarrow> pdf_field option" where
  "select (PDFRadioGroup opts sel) option =
     (if option \<in> set opts then Some (PDFRadioGroup opts (Some option)) else None)"
| "select (PDFDropdown opts sel) option = Some (PDFDropdown opts [option])"
| "select field option = None"

section \<open>Extraction: \<^verbatim>\<open>extractPDFFields\<close> of \<^verbatim>\<open>app/(chat)/api/fill-pdf/route.ts\<close>\<close>

text \<open>The \<^verbatim>\<open>instanceof\<close> chain of the loop body.\<close>

fun fieldType :: "pdf_field \<Rightarrow> string" where
  "fieldType (PDFTextField maxLen t) = ''text''"
| "fieldType (PDFCheckBox b) = ''checkbox''"
| "fieldType (PDFRadioGroup opts sel) = ''radio''"
| "fieldType (PDFDropdown opts sel) = ''dropdown''"
| "fieldType PDFOtherField = ''unknown''"

text \<open>\<^verbatim>\<open>field.getMaxLength() || undefined\<close> for a text field, \<^verbatim>\<open>undefined\<close> otherwise.\<close>

fun fieldMaxLength :: "pdf_field \<Rightarrow> int option" where
  "fieldMaxLength (PDFTextField maxLen t) =
     (case maxLen of None \<Rightarrow> None | Some m \<Rightarrow> if m \<noteq> 0 then Some m else None)"
| "fieldMaxLength field = None"

definition describeField :: "string \<times> pdf_field \<Rightarrow> PDFField" where
  "describeField entry =
     (case entry of (fieldName, field) \<Rightarrow>
        \<lparr>name = JString fieldName, label = JString fieldName,
         type = JString (fieldType field), maxLength = fieldMaxLength field\<rparr>)"

text \<open>
  Errors are the messages of the \<^verbatim>\<open>Error\<close> objects thrown, without the text of the
  underlying cause.
\<close>

definition extractPDFFields :: "pdf_buffer \<Rightarrow> string + PDFField list" where
  "extractPDFFields pdfBuffer =
     (case pdfBuffer of
        NotAPDF \<Rightarrow> Inl ''Failed to extract PDF fields''
      | PDFBytes form \<Rightarrow> Inr (map describeField form))"

section \<open>Filling: \<^verbatim>\<open>fillPDFFields\<close> of \<^verbatim>\<open>app/(chat)/api/fill-pdf/route.ts\<close>\<close>

text \<open>
  What the function writes with \<^verbatim>\<open>console.log\<close> and \<^verbatim>\<open>console.warn\<close>: the first
  argument of each call, in the order of the calls.
\<close>

datatype console_entry = ConsoleLog string | ConsoleWarn string

text \<open>The truth table of the checkbox branch.\<close>

definition shouldCheck :: "string \<Rightarrow> bool" where
  "shouldCheck value \<longleftrightarrow>
     toLowerCase value = ''true'' \<or>
     toLowerCase value = ''yes'' \<or>
     value = ''1'' \<or>
     toLowerCase value = ''on'' \<or>
     toLowerCase value = ''checked''"

text \<open>
  The \<^verbatim>\<open>try\<close> block of the loop body for one entry \<^verbatim>\<open>[fieldName, value]\<close>. \<open>None\<close>
  is an exception thrown inside it; every call that can throw comes before the first change
  and the first \<^verbatim>\<open>console\<close> call of its branch.
\<close>

definition fillFieldTry ::
  "string \<times> string \<Rightarrow> pdf_form \<times> console_entry list \<Rightarrow> (pdf_form \<times> console_entry list) option" where
  "fillFieldTry entry state =
     (case entry of (fieldName, value) \<Rightarrow>
      case state of (form, console) \<Rightarrow>
        (case getField form fieldName of
           None \<Rightarrow> None
         | Some field \<Rightarrow>
             (case field of
                PDFTextField maxLen t \<Rightarrow>
                  (case setText field value of
                     None \<Rightarrow> None
                   | Some field' \<Rightarrow>
                       Some (putField form fieldName field',
                             console @ [ConsoleLog (''Set text field '' @ [CHR 0x27] @ fieldName @
                                          [CHR 0x27] @ '' to: '' @ value)]))
              | PDFCheckBox b \<Rightarrow>
                  if shouldCheck value
                  then Some (putField form fieldName (check field),
                             console @ [ConsoleLog (''Checked checkbox '' @ [CHR 0x27] @ fieldName @
                                          [CHR 0x27])])
                  else Some (putField form fieldName (uncheck field),
                             console @ [ConsoleLog (''Unchecked checkbox '' @ [CHR 0x27] @ fieldName @
                                          [CHR 0x27])])
              | PDFRadioGroup opts sel \<Rightarrow>
                  if value \<in> set (getOptions field)
                  then (case select field value of
                          None \<Rightarrow> None
                        | Some field' \<Rightarrow>
                            Some (putField form fieldName field',
                                  console @ [ConsoleLog (''Selected radio '' @ [CHR 0x27] @ fieldName @
                                               [CHR 0x27] @ '' option: '' @ value)]))
                  else Some (form,
                             console @ [ConsoleWarn (''Radio field '' @ [CHR 0x27] @ fieldName @
                                          [CHR 0x27] @ '' does not have option '' @ [CHR 0x27] @ value @
                                          [CHR 0x27] @ ''. Available options:'')])
              | PDFDropdown opts sel \<Rightarrow>
                  if value \<in> set (getOptions field)
                  then (case select field value of
                          None \<Rightarrow> None
                        | Some field' \<Rightarrow>
                            Some (putField form fieldName field',
                                  console @ [ConsoleLog (''Selected dropdown '' @ [CHR 0x27] @
                                               fieldName @ [CHR 0x27] @ '' option: '' @ value)]))
                  else Some (form,
                             console @ [ConsoleWarn (''Dropdown field '' @ [CHR 0x27] @ fieldName @
                                          [CHR 0x27] @ '' does not have option '' @ [CHR 0x27] @ value @
                                          [CHR 0x27] @ ''. Available options:'')])
              | PDFOtherField \<Rightarrow>
                  Some (form,
                        console @ [ConsoleWarn (''Unknown field type for '' @ [CHR 0x27] @ fieldName @
                                     [CHR 0x27] @ '', skipping'')]))))"

text \<open>The loop body: the \<^verbatim>\<open>try\<close> block and its \<^verbatim>\<open>catch\<close>, which warns and goes on.\<close>

definition fillField ::
  "string \<times> string \<Rightarrow> pdf_form \<times> console_entry list \<Rightarrow> pdf_form \<times> console_entry list" where
  "fillField entry state =
     (case fillFieldTry entry state of
        Some state' \<Rightarrow> state'
      | None \<Rightarrow>
          (fst state,
           snd state @ [ConsoleWarn (''Could not fill field '' @ [CHR 0x27] @ fst entry @
                          [CHR 0x27] @ '':'')]))"

text \<open>
  The \<^verbatim>\<open>for\<close> loop over \<^verbatim>\<open>Object.entries(fieldValues)\<close> with the \<^verbatim>\<open>console.log\<close>
  before it: the form of the document in memory when the loop is done, and the console
  output.
\<close>

definition fillAllFields ::
  "pdf_form \<Rightarrow> string js_record \<Rightarrow> pdf_form \<times> console_entry list" where
  "fillAllFields form fieldValues =
     fold fillField fieldValues (form, [ConsoleLog ''Filling PDF with values:''])"

text \<open>
  The whole function: \<^verbatim>\<open>PDFDocument.load\<close>, the loop, \<^verbatim>\<open>pdfDoc.save()\<close>. The load and
  the save stand outside the \<^verbatim>\<open>try\<close> of the loop body, so an error of either is caught by
  the outer \<^verbatim>\<open>catch\<close> and thrown again as \<open>Failed to fill PDF fields\<close>. The result is that
  error or the saved bytes, and the console output.
\<close>

definition fillPDFFields ::
  "pdf_save \<Rightarrow> pdf_buffer \<Rightarrow> string js_record \<Rightarrow> (string + pdf_buffer) \<times> console_entry list" where
  "fillPDFFields save pdfBuffer fieldValues =
     (case pdfBuffer of
        NotAPDF \<Rightarrow> (Inl ''Failed to fill PDF fields'', [])
      | PDFBytes form \<Rightarrow>
          (case fillAllFields form fieldValues of
             (form', console) \<Rightarrow>
               (case save form' of
                  None \<Rightarrow> (Inl ''Failed to fill PDF fields'', console)
                | Some filledPdfBytes \<Rightarrow> (Inr filledPdfBytes, console))))"

section \<open>Filling: \<^verbatim>\<open>fillPDFFieldsWithLib\<close> of \<^verbatim>\<open>lib/utils/pdf-lib-processor.ts\<close>\<close>

definition shouldCheckWithLib :: "string \<Rightarrow> bool" where
  "shouldCheckWithLib value \<longleftrightarrow>
     toLowerCase value = ''true'' \<or>
     toLowerCase value = ''yes'' \<or>
     value = ''1'' \<or>
     toLowerCase value = ''on''"

definition fillFieldWithLibTry :: "string \<times> string \<Rightarrow> pdf_form \<Rightarrow> pdf_form option" where
  "fillFieldWithLibTry entry form =
     (case entry of (fieldName, value) \<Rightarrow>
        (case getField form fieldName of
           None \<Rightarrow> None
         | Some field \<Rightarrow>
             (case field of
                PDFTextField maxLen t \<Rightarrow>
                  (case setText field value of
                     None \<Rightarrow> None
                   | Some field' \<Rightarrow> Some (putField form fieldName field'))
              | PDFCheckBox b \<Rightarrow>
                  if shouldCheckWithLib value
                  then Some (putField form fieldName (check field))
                  else Some (putField form fieldName (uncheck field))
              | PDFRadioGroup opts sel \<Rightarrow>
                  if value \<in> set (getOptions field)
                  then (case select field value of
                          None \<Rightarrow> None
                        | Some field' \<Rightarrow> Some (putField form fieldName field'))
                  else Some form
              | PDFDropdown opts sel \<Rightarrow>
                  if value \<in> set (getOptions field)
                  then (case select field value of
                          None \<Rightarrow> None
                        | Some field' \<Rightarrow> Some (putField form fieldName field'))
                  else Some form
              | PDFOtherField \<Rightarrow> Some form)))"

definition fillFieldWithLib ::
  "string \<times> string \<Rightarrow> pdf_form \<times> console_entry list \<Rightarrow> pdf_form \<times> console_entry list" where
  "fillFieldWithLib entry state =
     (case fillFieldWithLibTry entry (fst state) of
        Some form' \<Rightarrow> (form', snd state)
      | None \<Rightarrow>
          (fst state,
           snd state @ [ConsoleWarn (''Could not fill field '' @ fst entry @ '':'')]))"

definition fillAllFieldsWithLib ::
  "pdf_form \<Rightarrow> string js_record \<Rightarrow> pdf_form \<times> console_entry list" where
  "fillAllFieldsWithLib form fieldValues = fold fillFieldWithLib fieldValues (form, [])"

definition fillPDFFieldsWithLib ::
  "pdf_save \<Rightarrow> pdf_buffer \<Rightarrow> string js_record \<Rightarrow> (string + pdf_buffer) \<times> console_entry list" where
  "fillPDFFieldsWithLib save pdfBuffer fieldValues =
     (case pdfBuffer of
        NotAPDF \<Rightarrow> (Inl ''Failed to fill PDF fields'', [])
      | PDFBytes form \<Rightarrow>
          (case fillAllFieldsWithLib form fieldValues of
             (form', console) \<Rightarrow>
               (case save form' of
                  None \<Rightarrow> (Inl ''Failed to fill PDF fields'', console)
                | Some bytes \<Rightarrow> (Inr bytes, console))))"

section \<open>Repairing the model's answer\<close>

text \<open>\<^verbatim>\<open>cleanAIResponse\<close> of \<^verbatim>\<open>lib/utils/pdf-processor.ts\<close>, used on the way to the field values.\<close>

definition cleanAIResponse :: "string \<Rightarrow> string" where
  "cleanAIResponse responseText =
     (let cleaned = trim responseText;
          cleaned = (if startsWith cleaned ''```json''
                     then substring cleaned 7 (int (length cleaned)) else cleaned);
          cleaned = (if endsWith cleaned ''```''
                     then substring cleaned 0 (int (length cleaned) - 3) else cleaned)
      in trim cleaned)"

text \<open>
  \<^verbatim>\<open>extractJsonObject\<close> of \<^verbatim>\<open>lib/ai/tools/extract-pdf-form-spec.ts\<close>, used on the way to
  the question spec. Its regular expressions one by one.

  \<^verbatim>\<open>t.replace(/^```(?:json)?/i, '')\<close>: a fence at the start goes, with the tag \<open>json\<close> in
  any letter case when it follows.
\<close>

definition stripLeadingFence :: "string \<Rightarrow> string" where
  "stripLeadingFence t =
     (if startsWith t ''```''
      then (let r = drop 3 t in if toLowerCase (take 4 r) = ''json'' then drop 4 r else r)
      else t)"

text \<open>\<^verbatim>\<open>t.replace(/```$/, '')\<close>: without the flag \<open>m\<close>, \<open>$\<close> is the end of the text.\<close>

definition stripTrailingFence :: "string \<Rightarrow> string" where
  "stripTrailingFence t = (if endsWith t ''```'' then take (length t - 3) t else t)"

text \<open>The word characters of \<^verbatim>\<open>\b\<close>: letters, digits and the underscore.\<close>

definition isWordChar :: "char \<Rightarrow> bool" where
  "isWordChar c \<longleftrightarrow>
     c \<in> set ''ABCDEFGHIJKLMNOPQRSTUVWXYZabcdefghijklmnopqrstuvwxyz0123456789_''"

text \<open>
  \<^verbatim>\<open>t.replace(/\bw\b/g, r)\<close> for a non-empty word \<open>w\<close> of word characters. The text is
  scanned from the left; \<open>prevIsWord\<close> tells whether the character before the position is a
  word character (at the start there is none). A match needs a boundary before it, the word
  itself, and a boundary after it; the scan goes on behind the match.
\<close>

fun replaceWord :: "string \<Rightarrow> string \<Rightarrow> bool \<Rightarrow> string \<Rightarrow> string" where
  "replaceWord w r prevIsWord [] = []"
| "replaceWord w r prevIsWord (c # cs) =
     (if \<not> prevIsWord \<and> take (length w) (c # cs) = w \<and>
         (case drop (length w - 1) cs of [] \<Rightarrow> True | d # ds \<Rightarrow> \<not> isWordChar d)
      then r @ replaceWord w r True (drop (length w - 1) cs)
      else c # replaceWord w r (isWordChar c) cs)"

declare replaceWord.simps [simp del]

text \<open>\<^verbatim>\<open>t.replace(/\bTrue\b/g, 'true').replace(/\bFalse\b/g, 'false')\<close>\<close>

definition pythonBooleansToJson :: "string \<Rightarrow> string" where
  "pythonBooleansToJson t =
     replaceWord ''False'' ''false'' False (replaceWord ''True'' ''true'' False t)"

text \<open>\<^verbatim>\<open>indexOf\<close> and \<^verbatim>\<open>lastIndexOf\<close> of one character; \<open>-1\<close> when it does not occur.\<close>

definition indexOf :: "string \<Rightarrow> char \<Rightarrow> int" where
  "indexOf t c = (if c \<in> set t then int (length (takeWhile (\<lambda>x. x \<noteq> c) t)) else - 1)"

definition lastIndexOf :: "string \<Rightarrow> char \<Rightarrow> int" where
  "lastIndexOf t c =
     (if c \<in> set t then int (length t) - 1 - int (length (takeWhile (\<lambda>x. x \<noteq> c) (rev t)))
      else - 1)"

text \<open>\<^verbatim>\<open>t.slice(a, b)\<close>: a negative index counts from the end; no swap.\<close>

definition slice :: "string \<Rightarrow> int \<Rightarrow> int \<Rightarrow> string" where
  "slice t a b =
     (let n = int (length t);
          from = (if a < 0 then max (n + a) 0 else min a n);
          to = (if b < 0 then max (n + b) 0 else min b n)
      in take (nat (to - from)) (drop (nat from) t))"

text \<open>
  The function; \<open>Inl\<close> is the message of the \<^verbatim>\<open>Error\<close> it throws. Its argument is a
  string here, so \<^verbatim>\<open>(text || '')\<close> is the argument.
\<close>

definition extractJsonObject :: "string \<Rightarrow> string + string" where
  "extractJsonObject text =
     (let t = trim text;
          t = (if startsWith t ''```'' then trim (stripTrailingFence (stripLeadingFence t)) else t);
          t = pythonBooleansToJson t;
          start = indexOf t (CHR ''{'');
          end = lastIndexOf t (CHR ''}'')
      in if start = - 1 \<or> end = - 1 \<or> end \<le> start
         then Inl ''No JSON object found in model output''
         else Inr (slice t start (end + 1)))"

section \<open>The route handler: \<^verbatim>\<open>POST\<close> of \<^verbatim>\<open>app/(chat)/api/fill-pdf/route.ts\<close>\<close>

text \<open>
  \<^verbatim>\<open>FillPDFRequest\<close> and \<^verbatim>\<open>FillPDFResponse\<close> of \<^verbatim>\<open>lib/utils/pdf-processor.ts\<close>; an
  optional member that is absent is \<open>None\<close>. (The member \<^verbatim>\<open>fields\<close> is
  \<open>responseFields\<close> here.)
\<close>

record FillPDFRequest =
  pdfUrl :: string
  userInfo :: string
  formType :: "string option"

record FillPDFResponse =
  success :: bool
  filledPdfUrl :: "string option"
  message :: string
  responseFields :: "string js_record option"

text \<open>
  What \<^verbatim>\<open>JSON.parse\<close> returns for the cleaned answer, as far as modelled: an object of
  scalars, or a scalar. \<^verbatim>\<open>Object.entries\<close> of it throws a TypeError on \<^verbatim>\<open>null\<close>, has no
  entry for a boolean or a number, and one entry per character for a string.
\<close>

datatype parsed_json = ParsedObject "js_value js_record" | ParsedScalar js_value

fun objectEntries :: "parsed_json \<Rightarrow> js_value js_record option" where
  "objectEntries (ParsedObject entries) = Some entries"
| "objectEntries (ParsedScalar JNull) = None"
| "objectEntries (ParsedScalar (JString s)) =
     Some (zip (map digits [0..<length s]) (map (\<lambda>c. JString [c]) s))"
| "objectEntries (ParsedScalar v) = Some []"

text \<open>
  The collaborators of the handler, which the repository calls and does not define. A
  call that throws returns \<open>Inl\<close> with the message of the error.
  \<^item> \<open>auth\<close>: \<^verbatim>\<open>auth()\<close> gave a session with a user.
  \<^item> \<open>requestJson\<close>: \<^verbatim>\<open>request.json()\<close>.
  \<^item> \<open>fetchUrl\<close>: \<^verbatim>\<open>fetch(url)\<close>, giving \<^verbatim>\<open>response.ok\<close>, the status line and the body.
  \<^item> \<open>pdfParseText\<close>: the text pdf-parse finds, \<open>None\<close> when it throws.
  \<^item> \<open>generateText\<close>: the model's answer to the prompt, which is built from the three
    arguments \<^verbatim>\<open>generateFillFieldsPrompt\<close> gets.
  \<^item> \<open>jsonParse\<close>: \<^verbatim>\<open>JSON.parse\<close>, \<open>None\<close> when it throws a SyntaxError.
  \<^item> \<open>pdfSave\<close>: \<^verbatim>\<open>pdfDoc.save()\<close> of pdf-lib.
  \<^item> \<open>put\<close>: the upload of the filled document, giving its URL.
\<close>

record world =
  auth :: bool
  requestJson :: "string + FillPDFRequest"
  fetchUrl :: "string \<Rightarrow> string + bool \<times> string \<times> pdf_buffer"
  pdfParseText :: "pdf_buffer \<Rightarrow> string option"
  generateText :: "string \<times> PDFField list \<times> string \<Rightarrow> string + string"
  jsonParse :: "string \<Rightarrow> parsed_json option"
  pdfSave :: pdf_save
  put :: "pdf_buffer \<Rightarrow> string + string"

text \<open>
  \<^verbatim>\<open>downloadPDFFromUrl\<close>: the error thrown inside the \<^verbatim>\<open>try\<close> is caught and thrown
  again with a longer message. The second component of a response is its status and
  status text, as the template prints them.
\<close>

definition downloadPDFFromUrl :: "world \<Rightarrow> string \<Rightarrow> string + pdf_buffer" where
  "downloadPDFFromUrl w url =
     (case fetchUrl w url of
        Inl err \<Rightarrow> Inl (''Error downloading PDF: '' @ err)
      | Inr (ok, statusLine, body) \<Rightarrow>
          if \<not> ok then Inl (''Error downloading PDF: '' @ ''Failed to download PDF: '' @ statusLine)
          else Inr body)"

text \<open>\<^verbatim>\<open>extractPDFText\<close>: \<^verbatim>\<open>data.text || ''\<close>, and the empty string when pdf-parse throws.\<close>

definition extractPDFText :: "world \<Rightarrow> pdf_buffer \<Rightarrow> string" where
  "extractPDFText w pdfBuffer = (case pdfParseText w pdfBuffer of None \<Rightarrow> [] | Some t \<Rightarrow> t)"

definition failure :: "string \<Rightarrow> FillPDFResponse" where
  "failure msg = \<lparr>success = False, filledPdfUrl = None, message = msg, responseFields = None\<rparr>"

text \<open>
  The handler from the validation of the extracted fields on (the part after
  \<^verbatim>\<open>Promise.all\<close>). The result is the HTTP status and the body of the response; an error
  thrown on the way is caught by the outer \<^verbatim>\<open>catch\<close> and reported with status 500.
\<close>

definition fillAndRespond ::
  "world \<Rightarrow> FillPDFRequest \<Rightarrow> pdf_buffer \<Rightarrow> string \<Rightarrow> PDFField list \<Rightarrow> nat \<times> FillPDFResponse" where
  "fillAndRespond w body pdfBuffer pdfText pdfFields =
     (if \<not> validatePDFFields pdfFields then (400, failure ''Invalid PDF fields extracted'')
      else
        (case generateText w (pdfText, pdfFields, userInfo body) of
           Inl err \<Rightarrow> (500, failure err)
         | Inr aiResponse \<Rightarrow>
             (let cleanedResponse = cleanAIResponse aiResponse in
              case jsonParse w cleanedResponse of
                None \<Rightarrow> (500, failure ''Failed to parse AI response for field values'')
              | Some fieldValues \<Rightarrow>
                  (case objectEntries fieldValues of
                     None \<Rightarrow> (500, failure ''Cannot convert undefined or null to object'')
                   | Some entries \<Rightarrow>
                       (let sanitizedValues = sanitizeFieldValues entries pdfFields in
                        case fst (fillPDFFields (pdfSave w) pdfBuffer sanitizedValues) of
                          Inl err \<Rightarrow> (500, failure err)
                        | Inr filledPdfBuffer \<Rightarrow>
                            (case put w filledPdfBuffer of
                               Inl err \<Rightarrow> (500, failure err)
                             | Inr url \<Rightarrow>
                                 (200, \<lparr>success = True, filledPdfUrl = Some url,
                                        message = ''PDF form filled successfully!'',
                                        responseFields = Some sanitizedValues\<rparr>)))))))"

definition POST :: "world \<Rightarrow> nat \<times> FillPDFResponse" where
  "POST w =
     (if \<not> auth w then (401, failure ''Unauthorized'')
      else
        (case requestJson w of
           Inl err \<Rightarrow> (500, failure err)
         | Inr body \<Rightarrow>
             if pdfUrl body = [] \<or> userInfo body = []
             then (400, failure ''Missing required fields: pdfUrl and userInfo'')
             else
               (case downloadPDFFromUrl w (pdfUrl body) of
                  Inl err \<Rightarrow> (500, failure err)
                | Inr pdfBuffer \<Rightarrow>
                    (case extractPDFFields pdfBuffer of
                       Inl err \<Rightarrow> (500, failure err)
                     | Inr pdfFields \<Rightarrow>
                         fillAndRespond w body pdfBuffer (extractPDFText w pdfBuffer) pdfFields))))"

section \<open>Auxiliary notions for the proofs\<close>

text \<open>
  The two halves of the loop body of \<^verbatim>\<open>sanitizeFieldValues\<close>, named so that lemmas can
  speak about them: the cut to \<^verbatim>\<open>maxLength\<close>, and the string stored for one entry (\<open>None\<close>
  when the entry is skipped). \<open>sanitizeEntry_eq\<close> ties them to \<^const>\<open>sanitizeEntry\<close>.
\<close>

definition truncateTo :: "int option \<Rightarrow> string \<Rightarrow> string" where
  "truncateTo ml s =
     (case ml of
        None \<Rightarrow> s
      | Some m \<Rightarrow> if m \<noteq> 0 \<and> int (length s) > m then substring s 0 m else s)"

definition sanitizeValue :: "PDFField list \<Rightarrow> string \<Rightarrow> js_value \<Rightarrow> string option" where
  "sanitizeValue pdfFields fieldName v =
     (case find (\<lambda>f. name f = JString fieldName) pdfFields of
        None \<Rightarrow> None
      | Some field \<Rightarrow>
          if truthy v then map_option (\<lambda>str. truncateTo (maxLength field) (trim str)) (toString v)
          else None)"

text \<open>
  The single-choice fields, the message \<^verbatim>\<open>fillPDFFields\<close> warns with when the value is
  none of a field's options, and the message of the \<^verbatim>\<open>catch\<close> of its loop body.
\<close>

fun isChoiceField :: "pdf_field \<Rightarrow> bool" where
  "isChoiceField (PDFRadioGroup opts sel) = True"
| "isChoiceField (PDFDropdown opts sel) = True"
| "isChoiceField field = False"

definition invalidOptionWarning :: "pdf_field \<Rightarrow> string \<Rightarrow> string \<Rightarrow> console_entry" where
  "invalidOptionWarning field fieldName value =
     ConsoleWarn ((case field of PDFRadioGroup opts sel \<Rightarrow> ''Radio field '' | _ \<Rightarrow> ''Dropdown field '') @
       [CHR 0x27] @ fieldName @ [CHR 0x27] @ '' does not have option '' @ [CHR 0x27] @ value @
       [CHR 0x27] @ ''. Available options:'')"

definition couldNotFillWarning :: "string \<Rightarrow> console_entry" where
  "couldNotFillWarning fieldName =
     ConsoleWarn (''Could not fill field '' @ [CHR 0x27] @ fieldName @ [CHR 0x27] @ '':'')"

definition uncheckedLog :: "string \<Rightarrow> console_entry" where
  "uncheckedLog fieldName =
     ConsoleLog (''Unchecked checkbox '' @ [CHR 0x27] @ fieldName @ [CHR 0x27])"

text \<open>
  A text that holds \<open>{\<close>, then \<open>mid\<close>, then \<open>}\<close>, with no \<open>{\<close> before and no \<open>}\<close> behind.
\<close>

definition braced :: "string \<Rightarrow> string \<Rightarrow> bool" where
  "braced mid t \<longleftrightarrow>
     (\<exists>pre post. t = pre @ CHR ''{'' # mid @ CHR ''}'' # post \<and>
        CHR ''{'' \<notin> set pre \<and> CHR ''}'' \<notin> set post)"

text \<open>
  Modelled from the spec: the serialisation of pdf-lib is not part of the repository. The
  specification says of the filler that it "serializes the mutated document to bytes and
  returns them" and that "the widget structure of the input PDF is preserved; only field
  values change". A save does so when the bytes it writes load to the form it was given.
\<close>

definition savesFaithfully :: "pdf_save \<Rightarrow> bool" where
  "savesFaithfully save \<longleftrightarrow> (\<forall>form bytes. save form = Some bytes \<longrightarrow> bytes = PDFBytes form)"

text \<open>
  The texts the claim about the repair compares: a JSON text whose boolean literals are
  written in Python's way, and the same text with JSON's literals. Such a text is a first
  piece \<open>g\<close> and then, for every boolean literal, the literal and the piece behind it.
\<close>

definition pyBool :: "bool \<Rightarrow> string" where
  "pyBool b = (if b then ''True'' else ''False'')"

definition jsonBool :: "bool \<Rightarrow> string" where
  "jsonBool b = (if b then ''true'' else ''false'')"

fun pythonText :: "string \<Rightarrow> (bool \<times> string) list \<Rightarrow> string" where
  "pythonText g [] = g"
| "pythonText g ((b, g') # rest) = g @ pyBool b @ pythonText g' rest"

fun jsonText :: "string \<Rightarrow> (bool \<times> string) list \<Rightarrow> string" where
  "jsonText g [] = g"
| "jsonText g ((b, g') # rest) = g @ jsonBool b @ jsonText g' rest"

text \<open>The word \<open>w\<close> stands in \<open>s\<close> with a word boundary on both sides.\<close>

definition occursAsWord :: "string \<Rightarrow> string \<Rightarrow> bool" where
  "occursAsWord w s \<longleftrightarrow>
     (\<exists>a b. s = a @ w @ b \<and> (a = [] \<or> \<not> isWordChar (last a)) \<and> (b = [] \<or> \<not> isWordChar (hd b)))"

text \<open>
  A scan of JSON text for its string literals: \<open>inString\<close> tells whether the position is
  inside one; a backslash inside a literal takes the next character with it. The result
  tells whether the text ends inside a literal.
\<close>

fun endsInString :: "bool \<Rightarrow> string \<Rightarrow> bool" where
  "endsInString inString [] = inString"
| "endsInString inString (c # cs) =
     (if \<not> inString then endsInString (c = CHR 0x22) cs
      else if c = CHR 0x22 then endsInString False cs
      else if c = CHR 0x5C then endsInString True (tl cs)
      else endsInString True cs)"

text \<open>
  A piece between two boolean literals: it is not empty, it starts and ends with a
  character that is no word character (so the literals beside it are words of their own),
  it holds neither \<open>True\<close> nor \<open>False\<close> as a word (in particular not inside a string
  literal), and its string literals are closed (so the literals beside it stand outside
  every string literal).
\<close>

definition jsonPiece :: "string \<Rightarrow> bool" where
  "jsonPiece g \<longleftrightarrow>
     g \<noteq> [] \<and> \<not> isWordChar (hd g) \<and> \<not> isWordChar (last g) \<and>
     \<not> occursAsWord ''True'' g \<and> \<not> occursAsWord ''False'' g \<and>
     \<not> endsInString False g"

section \<open>Sanitization: lemmas\<close>

lemma truthy_toString: "truthy v \<Longrightarrow> \<exists>s. toString v = Some s"
  by (cases v) auto

lemma sanitizeEntry_eq:
  "sanitizeEntry fs (k, v) acc =
     (case sanitizeValue fs k v of None \<Rightarrow> acc | Some s \<Rightarrow> AList.update k s acc)"
  by (auto simp: sanitizeEntry_def sanitizeValue_def truncateTo_def Let_def
      split: option.splits dest: truthy_toString)

lemma substring_0: "substring s 0 m = take (nat m) s"
  by (auto simp: substring_def Let_def min_def max_def)

lemma truncateTo_idem: "truncateTo ml (truncateTo ml s) = truncateTo ml s"
  by (auto simp: truncateTo_def substring_0 split: option.splits)

lemma map_of_fold_sanitize:
  "distinct (map fst raw) \<Longrightarrow>
   map_of (fold (sanitizeEntry fs) raw acc) k =
     (case map_of raw k of
        None \<Rightarrow> map_of acc k
      | Some v \<Rightarrow> (case sanitizeValue fs k v of None \<Rightarrow> map_of acc k | Some s \<Rightarrow> Some s))"
proof (induction raw arbitrary: acc)
  case Nil
  then show ?case by simp
next
  case (Cons e raw)
  obtain k' v' where e: "e = (k', v')" by (cases e)
  from Cons.prems have d: "distinct (map fst raw)" and nk: "k' \<notin> fst ` set raw"
    by (auto simp: e)
  have nk': "map_of raw k' = None" using nk by (simp add: map_of_eq_None_iff)
  show ?case
    using Cons.IH [OF d, of "sanitizeEntry fs (k', v') acc"] nk'
    by (auto simp: e sanitizeEntry_eq update_conv' split: option.splits)
qed

lemma map_of_sanitizeFieldValues:
  "distinct (map fst raw) \<Longrightarrow>
   map_of (sanitizeFieldValues raw fs) k =
     (case map_of raw k of None \<Rightarrow> None | Some v \<Rightarrow> sanitizeValue fs k v)"
  by (simp add: sanitizeFieldValues_def map_of_fold_sanitize split: option.splits)

lemma keys_fold_sanitize:
  "fst ` set (fold (sanitizeEntry fs) raw acc) \<subseteq>
     fst ` set acc \<union> {k. \<exists>f\<in>set fs. name f = JString k}"
proof (induction raw arbitrary: acc)
  case Nil
  then show ?case by simp
next
  case (Cons e raw)
  obtain k v where e: "e = (k, v)" by (cases e)
  have "fst ` set (sanitizeEntry fs (k, v) acc) \<subseteq>
      fst ` set acc \<union> {k. \<exists>f\<in>set fs. name f = JString k}"
    by (auto simp: sanitizeEntry_eq sanitizeValue_def dom_update
        split: option.splits if_splits dest: find_Some_iff [THEN iffD1])
  then show ?case using Cons.IH [of "sanitizeEntry fs (k, v) acc"]
    unfolding e fold_simps by blast
qed

lemma distinct_fold_sanitize:
  "distinct (map fst acc) \<Longrightarrow> distinct (map fst (fold (sanitizeEntry fs) raw acc))"
proof (induction raw arbitrary: acc)
  case Nil
  then show ?case by simp
next
  case (Cons e raw)
  obtain k v where e: "e = (k, v)" by (cases e)
  have "distinct (map fst (sanitizeEntry fs (k, v) acc))"
    using Cons.prems by (auto simp: sanitizeEntry_eq distinct_update split: option.splits)
  then show ?case using Cons.IH by (simp add: e)
qed


lemma update_fresh: "k \<notin> fst ` set al \<Longrightarrow> AList.update k v al = al @ [(k, v)]"
  by (induction al) auto

lemma set_update_subset: "set (AList.update k v al) \<subseteq> insert (k, v) (set al)"
  by (induction al) auto

lemma values_fold_sanitize:
  "(k, s) \<in> set (fold (sanitizeEntry fs) raw acc) \<Longrightarrow>
   (k, s) \<in> set acc \<or> (\<exists>v. sanitizeValue fs k v = Some s)"
proof (induction raw arbitrary: acc)
  case Nil
  then show ?case by simp
next
  case (Cons e raw)
  obtain k' v' where e: "e = (k', v')" by (cases e)
  from Cons.prems have "(k, s) \<in> set (fold (sanitizeEntry fs) raw (sanitizeEntry fs (k', v') acc))"
    by (simp add: e)
  from Cons.IH [OF this]
  show ?case
    using set_update_subset [of k' _ acc]
    by (auto simp: sanitizeEntry_eq split: option.splits)
qed

lemma fold_sanitize_fixed:
  "distinct (map fst y) \<Longrightarrow> fst ` set y \<inter> fst ` set acc = {} \<Longrightarrow>
   (\<And>k s. (k, s) \<in> set y \<Longrightarrow> sanitizeValue fs k (JString s) = Some s) \<Longrightarrow>
   fold (sanitizeEntry fs) (asFieldValues y) acc = acc @ y"
proof (induction y arbitrary: acc)
  case Nil
  then show ?case by (simp add: asFieldValues_def)
next
  case (Cons e y)
  obtain k s where e: "e = (k, s)" by (cases e)
  have fresh: "k \<notin> fst ` set acc" using Cons.prems(2) by (auto simp: e)
  have step: "sanitizeEntry fs (k, JString s) acc = acc @ [(k, s)]"
    using Cons.prems(3) [of k s] fresh by (simp add: e sanitizeEntry_eq update_fresh)
  have d: "distinct (map fst y)" and nk: "k \<notin> fst ` set y"
    using Cons.prems(1) by (auto simp: e)
  have disj: "fst ` set y \<inter> fst ` set (acc @ [(k, s)]) = {}"
    using Cons.prems(2) nk by (auto simp: e)
  have "fold (sanitizeEntry fs) (asFieldValues y) (acc @ [(k, s)]) = (acc @ [(k, s)]) @ y"
    using Cons.prems(3) by (intro Cons.IH [OF d disj]) (auto simp: e)
  then show ?case
    using step by (simp add: e asFieldValues_def)
qed

lemma length_trim_le: "length (trim s) \<le> length s"
proof -
  have "length (trim s) \<le> length (dropWhile isWhiteSpace s)"
    unfolding trim_def by (metis length_dropWhile_le length_rev)
  also have "\<dots> \<le> length s" by (rule length_dropWhile_le)
  finally show ?thesis .
qed

lemma sanitizeValue_fixed_iff:
  "sanitizeValue fs k (JString s) = Some s \<longleftrightarrow>
     (\<exists>f. find (\<lambda>f. name f = JString k) fs = Some f \<and> truncateTo (maxLength f) s = s) \<and>
     s \<noteq> [] \<and> trim s = s"
proof -
  have key: "trim s = s" if "truncateTo ml (trim s) = s" "s \<noteq> []" for ml
  proof (cases "truncateTo ml (trim s) = trim s")
    case True
    with that show ?thesis by simp
  next
    case False
    then obtain m where m: "ml = Some m" "m \<noteq> 0" "int (length (trim s)) > m"
      and eq: "truncateTo ml (trim s) = take (nat m) (trim s)"
      by (auto simp: truncateTo_def substring_0 split: option.splits if_splits)
    have "length s = length (take (nat m) (trim s))" using that eq by simp
    moreover have "m > 0" using that eq by (cases "m > 0") auto
    ultimately have "int (length s) = m" using m by auto
    with m length_trim_le [of s] show ?thesis by simp
  qed
  show ?thesis
  proof
    assume "sanitizeValue fs k (JString s) = Some s"
    then obtain f where f: "find (\<lambda>f. name f = JString k) fs = Some f"
      and ne: "s \<noteq> []" and t: "truncateTo (maxLength f) (trim s) = s"
      by (auto simp: sanitizeValue_def split: option.splits if_splits)
    from key [OF t ne] have "trim s = s" .
    with f ne t show "(\<exists>f. find (\<lambda>f. name f = JString k) fs = Some f \<and>
        truncateTo (maxLength f) s = s) \<and> s \<noteq> [] \<and> trim s = s"
      by simp
  next
    assume "(\<exists>f. find (\<lambda>f. name f = JString k) fs = Some f \<and>
        truncateTo (maxLength f) s = s) \<and> s \<noteq> [] \<and> trim s = s"
    then show "sanitizeValue fs k (JString s) = Some s"
      by (auto simp: sanitizeValue_def)
  qed
qed

lemma sanitizeValue_output:
  assumes "sanitizeValue fs k v = Some s"
  shows "\<exists>f. find (\<lambda>f. name f = JString k) fs = Some f \<and> truncateTo (maxLength f) s = s"
  using assms by (auto simp: sanitizeValue_def truncateTo_idem split: option.splits if_splits)

lemma distinct_sanitizeFieldValues: "distinct (map fst (sanitizeFieldValues x fs))"
  by (simp add: sanitizeFieldValues_def distinct_fold_sanitize)

lemma distinct_asFieldValues: "distinct (map fst (asFieldValues y)) = distinct (map fst y)"
proof -
  have "map fst (asFieldValues y) = map fst y"
    by (induction y) (auto simp: asFieldValues_def)
  then show ?thesis by simp
qed

lemma map_of_asFieldValues: "map_of (asFieldValues y) k = map_option JString (map_of y k)"
  by (induction y) (auto simp: asFieldValues_def)

section \<open>Sanitization: the claims\<close>

text \<open>
  C2, as the code has it. For the schema of the scenario and the raw answer with
  \<open>ghost_field\<close>, the result holds \<open>full_name\<close> cut to its first 20 characters, which
  are \<open>Jonathan Alexander S\<close>, and \<open>is_llc\<close> as the string \<open>yes\<close>; \<open>ghost_field\<close>
  is dropped.
\<close>

theorem C2_scenario_sanitize:
  "sanitizeFieldValues
     [(''full_name'', JString ''Jonathan Alexander Smithsonian''),
      (''is_llc'', JString ''yes''),
      (''ghost_field'', JString ''x'')]
     [\<lparr>name = JString ''full_name'', label = JString ''full_name'', type = JString ''text'',
       maxLength = Some 20\<rparr>,
      \<lparr>name = JString ''is_llc'', label = JString ''is_llc'', type = JString ''checkbox'',
       maxLength = None\<rparr>]
   = [(''full_name'', ''Jonathan Alexander S''), (''is_llc'', ''yes'')]"
  by (simp add: sanitizeFieldValues_def sanitizeEntry_def trim_def isWhiteSpace_def substring_def)

text \<open>
  C2 as the specification states it fails: the value it gives for \<open>full_name\<close>,
  \<open>Jonathan Alexander Smit\<close>, has 23 characters and is not what the function stores.
\<close>

theorem C2_scenario_counterexample:
  "map_of (sanitizeFieldValues
     [(''full_name'', JString ''Jonathan Alexander Smithsonian''),
      (''is_llc'', JString ''yes''),
      (''ghost_field'', JString ''x'')]
     [\<lparr>name = JString ''full_name'', label = JString ''full_name'', type = JString ''text'',
       maxLength = Some 20\<rparr>,
      \<lparr>name = JString ''is_llc'', label = JString ''is_llc'', type = JString ''checkbox'',
       maxLength = None\<rparr>])
   \<noteq> map_of [(''full_name'', ''Jonathan Alexander Smit''), (''is_llc'', ''yes'')]"
proof
  assume eq: "map_of (sanitizeFieldValues
     [(''full_name'', JString ''Jonathan Alexander Smithsonian''),
      (''is_llc'', JString ''yes''),
      (''ghost_field'', JString ''x'')]
     [\<lparr>name = JString ''full_name'', label = JString ''full_name'', type = JString ''text'',
       maxLength = Some 20\<rparr>,
      \<lparr>name = JString ''is_llc'', label = JString ''is_llc'', type = JString ''checkbox'',
       maxLength = None\<rparr>])
   = map_of [(''full_name'', ''Jonathan Alexander Smit''), (''is_llc'', ''yes'')]"
  have "map_of (sanitizeFieldValues
     [(''full_name'', JString ''Jonathan Alexander Smithsonian''),
      (''is_llc'', JString ''yes''),
      (''ghost_field'', JString ''x'')]
     [\<lparr>name = JString ''full_name'', label = JString ''full_name'', type = JString ''text'',
       maxLength = Some 20\<rparr>,
      \<lparr>name = JString ''is_llc'', label = JString ''is_llc'', type = JString ''checkbox'',
       maxLength = None\<rparr>]) ''full_name'' = Some ''Jonathan Alexander S''"
    by (simp add: sanitizeFieldValues_def sanitizeEntry_def trim_def isWhiteSpace_def
        substring_def)
  with eq show False by simp
qed

text \<open>
  C4, as the code has it. Sanitizing the sanitized map again gives the same map exactly
  when every value of the sanitized map is non-empty and has no white space at its ends.
  (A value is stored after \<^verbatim>\<open>trim\<close> even when nothing is left of it, and the cut to
  \<^verbatim>\<open>maxLength\<close> comes after \<^verbatim>\<open>trim\<close>, so it can end in white space.)
\<close>

theorem C4_sanitize_idempotent_iff:
  "sanitizeFieldValues (asFieldValues (sanitizeFieldValues x fs)) fs = sanitizeFieldValues x fs
   \<longleftrightarrow> (\<forall>(k, s) \<in> set (sanitizeFieldValues x fs). s \<noteq> [] \<and> trim s = s)"
proof
  let ?y = "sanitizeFieldValues x fs"
  assume idem: "sanitizeFieldValues (asFieldValues ?y) fs = ?y"
  show "\<forall>(k, s) \<in> set ?y. s \<noteq> [] \<and> trim s = s"
  proof clarify
    fix k s
    assume mem: "(k, s) \<in> set ?y"
    have "map_of ?y k = Some s"
      using mem distinct_sanitizeFieldValues by simp
    moreover have "map_of (sanitizeFieldValues (asFieldValues ?y) fs) k =
        (case map_of (asFieldValues ?y) k of None \<Rightarrow> None | Some v \<Rightarrow> sanitizeValue fs k v)"
      by (rule map_of_sanitizeFieldValues)
        (simp add: distinct_asFieldValues distinct_sanitizeFieldValues)
    ultimately have "sanitizeValue fs k (JString s) = Some s"
      using idem by (simp add: map_of_asFieldValues)
    then show "s \<noteq> [] \<and> trim s = s"
      by (simp add: sanitizeValue_fixed_iff)
  qed
next
  let ?y = "sanitizeFieldValues x fs"
  assume ok: "\<forall>(k, s) \<in> set ?y. s \<noteq> [] \<and> trim s = s"
  have fixed: "sanitizeValue fs k (JString s) = Some s" if "(k, s) \<in> set ?y" for k s
  proof -
    from that obtain v where "sanitizeValue fs k v = Some s"
      using values_fold_sanitize [of k s fs x "[]"] by (auto simp: sanitizeFieldValues_def)
    from sanitizeValue_output [OF this] ok that show ?thesis
      by (auto simp: sanitizeValue_fixed_iff)
  qed
  have "fold (sanitizeEntry fs) (asFieldValues ?y) [] = [] @ ?y"
    by (rule fold_sanitize_fixed) (auto simp: distinct_sanitizeFieldValues fixed)
  then show "sanitizeFieldValues (asFieldValues ?y) fs = ?y"
    by (simp add: sanitizeFieldValues_def)
qed

theorem C4_sanitize_idempotent_witness:
  "sanitizeFieldValues (asFieldValues (sanitizeFieldValues
      [(''a'', JString '' hello ''), (''b'', JBoolean True), (''zz'', JString ''x'')]
      [\<lparr>name = JString ''a'', label = JString ''a'', type = JString ''text'', maxLength = Some 3\<rparr>,
       \<lparr>name = JString ''b'', label = JString ''b'', type = JString ''checkbox'',
        maxLength = None\<rparr>]))
      [\<lparr>name = JString ''a'', label = JString ''a'', type = JString ''text'', maxLength = Some 3\<rparr>,
       \<lparr>name = JString ''b'', label = JString ''b'', type = JString ''checkbox'',
        maxLength = None\<rparr>]
   = sanitizeFieldValues
      [(''a'', JString '' hello ''), (''b'', JBoolean True), (''zz'', JString ''x'')]
      [\<lparr>name = JString ''a'', label = JString ''a'', type = JString ''text'', maxLength = Some 3\<rparr>,
       \<lparr>name = JString ''b'', label = JString ''b'', type = JString ''checkbox'',
        maxLength = None\<rparr>]"
proof -
  have "\<forall>(k, s) \<in> set (sanitizeFieldValues
      [(''a'', JString '' hello ''), (''b'', JBoolean True), (''zz'', JString ''x'')]
      [\<lparr>name = JString ''a'', label = JString ''a'', type = JString ''text'', maxLength = Some 3\<rparr>,
       \<lparr>name = JString ''b'', label = JString ''b'', type = JString ''checkbox'',
        maxLength = None\<rparr>]). s \<noteq> [] \<and> trim s = s"
    by (simp add: sanitizeFieldValues_def sanitizeEntry_def trim_def isWhiteSpace_def
        substring_def)
  then show ?thesis
    by (simp only: C4_sanitize_idempotent_iff)
qed

text \<open>
  C4 as the specification states it fails, in two ways. A value of white space only is
  stored as the empty string, which the second pass drops as falsy; a cut that ends in
  white space is trimmed by the second pass.
\<close>

theorem C4_sanitize_idempotent_counterexample:
  "sanitizeFieldValues (asFieldValues (sanitizeFieldValues [(''a'', JString '' '')]
      [\<lparr>name = JString ''a'', label = JString ''a'', type = JString ''text'', maxLength = None\<rparr>]))
      [\<lparr>name = JString ''a'', label = JString ''a'', type = JString ''text'', maxLength = None\<rparr>]
   \<noteq> sanitizeFieldValues [(''a'', JString '' '')]
      [\<lparr>name = JString ''a'', label = JString ''a'', type = JString ''text'', maxLength = None\<rparr>]
   \<and>
   sanitizeFieldValues (asFieldValues (sanitizeFieldValues [(''a'', JString ''ab cd'')]
      [\<lparr>name = JString ''a'', label = JString ''a'', type = JString ''text'', maxLength = Some 3\<rparr>]))
      [\<lparr>name = JString ''a'', label = JString ''a'', type = JString ''text'', maxLength = Some 3\<rparr>]
   \<noteq> sanitizeFieldValues [(''a'', JString ''ab cd'')]
      [\<lparr>name = JString ''a'', label = JString ''a'', type = JString ''text'', maxLength = Some 3\<rparr>]"
  by (simp add: sanitizeFieldValues_def sanitizeEntry_def asFieldValues_def trim_def
      isWhiteSpace_def substring_def)

text \<open>
  C5. Every key of the sanitized map is the \<^verbatim>\<open>name\<close> of a descriptor of the list:
  \<open>keys(sanitize(raw, fields)) \<subseteq> {f.name for f in fields}\<close>, for every raw map and
  every list.
\<close>

theorem C5_sanitize_keys_in_schema:
  "JString ` fst ` set (sanitizeFieldValues raw pdfFields) \<subseteq> name ` set pdfFields"
proof
  fix n
  assume "n \<in> JString ` fst ` set (sanitizeFieldValues raw pdfFields)"
  then obtain k where k: "k \<in> fst ` set (fold (sanitizeEntry pdfFields) raw [])" and n: "n = JString k"
    by (auto simp: sanitizeFieldValues_def)
  from k keys_fold_sanitize [of pdfFields raw "[]"]
  obtain f where "f \<in> set pdfFields" "name f = JString k"
    by auto
  with n show "n \<in> name ` set pdfFields"
    by force
qed

theorem C5_sanitize_keys_in_schema_witness:
  "JString ` fst ` set (sanitizeFieldValues
      [(''a'', JString ''x''), (''ghost'', JString ''y'')]
      [\<lparr>name = JString ''a'', label = JString ''a'', type = JString ''text'', maxLength = None\<rparr>])
   \<subseteq> name ` set
      [\<lparr>name = JString ''a'', label = JString ''a'', type = JString ''text'', maxLength = None\<rparr>]"
  by (rule C5_sanitize_keys_in_schema)

section \<open>Filling: lemmas\<close>

lemma map_update_same:
  "map_of al k = Some w \<Longrightarrow> g k w' = g k w \<Longrightarrow>
   map (\<lambda>(n, x). g n x) (AList.update k w' al) = map (\<lambda>(n, x). g n x) al"
  by (induction al) (auto split: if_splits)

lemma describeField_update:
  assumes "getField form k = Some w" "fieldType w' = fieldType w" "fieldMaxLength w' = fieldMaxLength w"
  shows "map describeField (putField form k w') = map describeField form"
proof -
  have "describeField = (\<lambda>(n, x). describeField (n, x))" by auto
  moreover have "describeField (k, w') = describeField (k, w)"
    using assms by (simp add: describeField_def)
  ultimately show ?thesis
    using assms(1) map_update_same [of form k w "\<lambda>n x. describeField (n, x)" w']
    by (simp add: getField_def putField_def)
qed

lemma setText_kind:
  "setText w txt = Some w' \<Longrightarrow> fieldType w' = fieldType w \<and> fieldMaxLength w' = fieldMaxLength w"
  by (cases w) (auto split: if_splits)

lemma select_kind:
  "select w opt = Some w' \<Longrightarrow> fieldType w' = fieldType w \<and> fieldMaxLength w' = fieldMaxLength w"
  by (cases w) (auto split: if_splits)

lemma check_kind: "fieldType (check w) = fieldType w \<and> fieldMaxLength (check w) = fieldMaxLength w"
  by (cases w) auto

lemma uncheck_kind:
  "fieldType (uncheck w) = fieldType w \<and> fieldMaxLength (uncheck w) = fieldMaxLength w"
  by (cases w) auto

lemma fillFieldTry_describe:
  "fillFieldTry e (form, console) = Some (form', console') \<Longrightarrow>
   map describeField form' = map describeField form"
  by (auto simp: fillFieldTry_def describeField_update setText_kind select_kind check_kind
      uncheck_kind split: prod.splits option.splits pdf_field.splits if_splits)

lemma fillField_describe:
  "fillField e (form, console) = (form', console') \<Longrightarrow>
   map describeField form' = map describeField form"
  by (auto simp: fillField_def split: option.splits dest: fillFieldTry_describe)

lemma fold_fillField_describe:
  "fold fillField vals (form, console) = (form', console') \<Longrightarrow>
   map describeField form' = map describeField form"
proof (induction vals arbitrary: form console)
  case Nil
  then show ?case by simp
next
  case (Cons e vals)
  obtain f1 c1 where s: "fillField e (form, console) = (f1, c1)"
    by (cases "fillField e (form, console)")
  from Cons.prems s have "fold fillField vals (f1, c1) = (form', console')" by simp
  from Cons.IH [OF this] fillField_describe [OF s] show ?case by simp
qed

lemma fillFieldTry_other:
  "fillFieldTry (k, v) (form, console) = Some (form', console') \<Longrightarrow> n \<noteq> k \<Longrightarrow>
   getField form' n = getField form n"
  by (auto simp: fillFieldTry_def getField_def putField_def update_conv'
      split: option.splits pdf_field.splits if_splits)

lemma fillField_other:
  "fillField (k, v) (form, console) = (form', console') \<Longrightarrow> n \<noteq> k \<Longrightarrow>
   getField form' n = getField form n"
  by (auto simp: fillField_def split: option.splits dest: fillFieldTry_other)

lemma fillFieldTry_console:
  "fillFieldTry (k, v) (form, console) = Some (form', console') \<Longrightarrow>
   \<exists>m. console' = console @ [m] \<and> (n \<noteq> k \<longrightarrow> m \<noteq> couldNotFillWarning n \<and> m \<noteq> uncheckedLog n)"
  by (auto simp: fillFieldTry_def couldNotFillWarning_def uncheckedLog_def
      split: option.splits pdf_field.splits if_splits)

lemma fillField_console:
  "fillField (k, v) (form, console) = (form', console') \<Longrightarrow>
   \<exists>m. console' = console @ [m] \<and> (n \<noteq> k \<longrightarrow> m \<noteq> couldNotFillWarning n \<and> m \<noteq> uncheckedLog n)"
  by (auto simp: fillField_def couldNotFillWarning_def uncheckedLog_def
      split: option.splits dest: fillFieldTry_console [where n = n])

lemma fold_fillField_other:
  "fold fillField vals (form, console) = (form', console') \<Longrightarrow> n \<notin> fst ` set vals \<Longrightarrow>
   getField form' n = getField form n \<and>
   set console \<subseteq> set console' \<and>
   (couldNotFillWarning n \<in> set console' \<longrightarrow> couldNotFillWarning n \<in> set console) \<and>
   (uncheckedLog n \<in> set console' \<longrightarrow> uncheckedLog n \<in> set console)"
proof (induction vals arbitrary: form console)
  case Nil
  then show ?case by simp
next
  case (Cons e vals)
  obtain k v where e: "e = (k, v)" by (cases e)
  obtain f1 c1 where s: "fillField (k, v) (form, console) = (f1, c1)"
    by (cases "fillField (k, v) (form, console)")
  have nk: "n \<noteq> k" and nv: "n \<notin> fst ` set vals" using Cons.prems(2) by (auto simp: e)
  from Cons.prems(1) s have r: "fold fillField vals (f1, c1) = (form', console')" by (simp add: e)
  from fillField_console [OF s, of n] nk obtain m where
    m: "c1 = console @ [m]" "m \<noteq> couldNotFillWarning n" "m \<noteq> uncheckedLog n" by auto
  from Cons.IH [OF r nv] fillField_other [OF s nk] m show ?case by auto
qed

lemma fillFieldTry_invalid_option:
  assumes "getField form k = Some field" "isChoiceField field" "v \<notin> set (getOptions field)"
  shows "fillFieldTry (k, v) (form, console) = Some (form, console @ [invalidOptionWarning field k v])"
  using assms by (cases field) (auto simp: fillFieldTry_def invalidOptionWarning_def)

lemma fillFieldWithLibTry_invalid_option:
  assumes "getField form k = Some field" "isChoiceField field" "v \<notin> set (getOptions field)"
  shows "fillFieldWithLibTry (k, v) form = Some form"
  using assms by (cases field) (auto simp: fillFieldWithLibTry_def)

lemma fillFieldWithLibTry_other:
  "fillFieldWithLibTry (k, v) form = Some form' \<Longrightarrow> n \<noteq> k \<Longrightarrow>
   getField form' n = getField form n"
  by (auto simp: fillFieldWithLibTry_def getField_def putField_def update_conv'
      split: option.splits pdf_field.splits if_splits)

lemma fillFieldWithLib_other:
  "fillFieldWithLib (k, v) (form, console) = (form', console') \<Longrightarrow> n \<noteq> k \<Longrightarrow>
   getField form' n = getField form n \<and> (console' = console \<or> console' = console @ [ConsoleWarn (''Could not fill field '' @ k @ '':'')])"
  by (auto simp: fillFieldWithLib_def split: option.splits dest: fillFieldWithLibTry_other)

lemma fold_fillFieldWithLib_other:
  "fold fillFieldWithLib vals (form, console) = (form', console') \<Longrightarrow> n \<notin> fst ` set vals \<Longrightarrow>
   getField form' n = getField form n \<and>
   (ConsoleWarn (''Could not fill field '' @ n @ '':'') \<in> set console' \<longrightarrow>
    ConsoleWarn (''Could not fill field '' @ n @ '':'') \<in> set console)"
proof (induction vals arbitrary: form console)
  case Nil
  then show ?case by simp
next
  case (Cons e vals)
  obtain k v where e: "e = (k, v)" by (cases e)
  obtain f1 c1 where s: "fillFieldWithLib (k, v) (form, console) = (f1, c1)"
    by (cases "fillFieldWithLib (k, v) (form, console)")
  have nk: "n \<noteq> k" and nv: "n \<notin> fst ` set vals" using Cons.prems(2) by (auto simp: e)
  from Cons.prems(1) s have r: "fold fillFieldWithLib vals (f1, c1) = (form', console')"
    by (simp add: e)
  from Cons.IH [OF r nv] fillFieldWithLib_other [OF s nk] nk show ?case by auto
qed

lemma split_distinct_entry:
  assumes "distinct (map fst vals)" "(k, v) \<in> set vals"
  obtains pre post where "vals = pre @ (k, v) # post" "k \<notin> fst ` set pre" "k \<notin> fst ` set post"
proof -
  from assms(2) obtain pre post where sp: "vals = pre @ (k, v) # post"
    by (auto simp: in_set_conv_decomp)
  with assms(1) have "k \<notin> fst ` set pre" "k \<notin> fst ` set post" by auto
  with sp that show ?thesis by blast
qed

lemma falsy_iff: "\<not> truthy v \<longleftrightarrow> v \<in> {JString [], JBoolean False, JNull, JNumber 0}"
  by (cases v) auto










text \<open>
  The two truth tables differ exactly on the values that are \<open>checked\<close> in some letter
  case, and the one of the route agrees with the examples of the specification.
\<close>

lemma shouldCheck_WithLib:
  "shouldCheck value \<longleftrightarrow> shouldCheckWithLib value \<or> toLowerCase value = ''checked''"
  by (auto simp: shouldCheck_def shouldCheckWithLib_def)

lemma shouldCheck_examples:
  "shouldCheck ''YES''" "shouldCheck ''On''" "shouldCheck ''1''" "shouldCheck ''checked''"
  "shouldCheck ''Checked''" "shouldCheck ''TRUE''"
  "\<not> shouldCheck []" "\<not> shouldCheck ''false''" "\<not> shouldCheck ''no''" "\<not> shouldCheck ''random''"
  by (simp_all add: shouldCheck_def toLowerCase_def toLowerChar_def upperCaseLetters_def
      lowerCaseLetters_def)

lemma snd_fillPDFFields:
  "snd (fillPDFFields save (PDFBytes form) fieldValues) = snd (fillAllFields form fieldValues)"
  by (simp add: fillPDFFields_def split: prod.splits option.splits)

lemma snd_fillPDFFieldsWithLib:
  "snd (fillPDFFieldsWithLib save (PDFBytes form) fieldValues) =
     snd (fillAllFieldsWithLib form fieldValues)"
  by (simp add: fillPDFFieldsWithLib_def split: prod.splits option.splits)

lemma fillPDFFields_Inr:
  assumes "savesFaithfully save" "fst (fillPDFFields save pdfBuffer fieldValues) = Inr filled"
  shows "\<exists>form. pdfBuffer = PDFBytes form \<and> filled = PDFBytes (fst (fillAllFields form fieldValues))"
  using assms
  by (auto simp: fillPDFFields_def savesFaithfully_def
      split: pdf_buffer.splits prod.splits option.splits)

text \<open>
  What the route's filler does with a value that is none of the options of a radio group
  or dropdown: the field in memory stays as it was, the warning is written, and the
  \<^verbatim>\<open>catch\<close> of the loop body is not entered for that field. (The keys of the value map are
  distinct.)
\<close>

lemma fillAllFields_invalid_option:
  assumes "distinct (map fst fieldValues)"
    and "(fieldName, value) \<in> set fieldValues"
    and "getField form fieldName = Some field"
    and "isChoiceField field"
    and "value \<notin> set (getOptions field)"
  shows "getField (fst (fillAllFields form fieldValues)) fieldName = Some field \<and>
         invalidOptionWarning field fieldName value \<in> set (snd (fillAllFields form fieldValues)) \<and>
         couldNotFillWarning fieldName \<notin> set (snd (fillAllFields form fieldValues))"
proof -
  from assms(1,2) obtain pre post where
    sp: "fieldValues = pre @ (fieldName, value) # post"
    and npre: "fieldName \<notin> fst ` set pre" and npost: "fieldName \<notin> fst ` set post"
    by (rule split_distinct_entry)
  let ?c0 = "[ConsoleLog ''Filling PDF with values:'']"
  obtain f1 c1 where s1: "fold fillField pre (form, ?c0) = (f1, c1)"
    by (cases "fold fillField pre (form, ?c0)")
  from fold_fillField_other [OF s1 npre] assms(3)
  have g1: "getField f1 fieldName = Some field" and w1: "couldNotFillWarning fieldName \<notin> set c1"
    by (auto simp: couldNotFillWarning_def)
  let ?c2 = "c1 @ [invalidOptionWarning field fieldName value]"
  have s2: "fillField (fieldName, value) (f1, c1) = (f1, ?c2)"
    using fillFieldTry_invalid_option [OF g1 assms(4,5)] by (simp add: fillField_def)
  have w2: "couldNotFillWarning fieldName \<notin> set ?c2"
    using w1 by (auto simp: couldNotFillWarning_def invalidOptionWarning_def split: pdf_field.splits)
  obtain f3 c3 where s3: "fold fillField post (f1, ?c2) = (f3, c3)"
    by (cases "fold fillField post (f1, ?c2)")
  from fold_fillField_other [OF s3 npost] g1 w2
  have g3: "getField f3 fieldName = Some field"
    and w3: "couldNotFillWarning fieldName \<notin> set c3"
    and m3: "invalidOptionWarning field fieldName value \<in> set c3"
    by auto
  have "fillAllFields form fieldValues = (f3, c3)"
    using s1 s2 s3 by (simp add: sp fillAllFields_def)
  with g3 w3 m3 show ?thesis by simp
qed

text \<open>
  The filler of \<^verbatim>\<open>pdf-lib-processor.ts\<close> on the same input: the field stays as it was and
  the \<^verbatim>\<open>catch\<close> is not entered, and nothing is written for the field.
\<close>

lemma fillAllFieldsWithLib_invalid_option:
  assumes "distinct (map fst fieldValues)"
    and "(fieldName, value) \<in> set fieldValues"
    and "getField form fieldName = Some field"
    and "isChoiceField field"
    and "value \<notin> set (getOptions field)"
  shows "getField (fst (fillAllFieldsWithLib form fieldValues)) fieldName = Some field \<and>
         ConsoleWarn (''Could not fill field '' @ fieldName @ '':'')
           \<notin> set (snd (fillAllFieldsWithLib form fieldValues))"
proof -
  from assms(1,2) obtain pre post where
    sp: "fieldValues = pre @ (fieldName, value) # post"
    and npre: "fieldName \<notin> fst ` set pre" and npost: "fieldName \<notin> fst ` set post"
    by (rule split_distinct_entry)
  obtain f1 c1 where s1: "fold fillFieldWithLib pre (form, []) = (f1, c1)"
    by (cases "fold fillFieldWithLib pre (form, [])")
  from fold_fillFieldWithLib_other [OF s1 npre] assms(3)
  have g1: "getField f1 fieldName = Some field"
    and w1: "ConsoleWarn (''Could not fill field '' @ fieldName @ '':'') \<notin> set c1"
    by auto
  have s2: "fillFieldWithLib (fieldName, value) (f1, c1) = (f1, c1)"
    using fillFieldWithLibTry_invalid_option [OF g1 assms(4,5)] by (simp add: fillFieldWithLib_def)
  obtain f3 c3 where s3: "fold fillFieldWithLib post (f1, c1) = (f3, c3)"
    by (cases "fold fillFieldWithLib post (f1, c1)")
  from fold_fillFieldWithLib_other [OF s3 npost] g1 w1
  have g3: "getField f3 fieldName = Some field"
    and w3: "ConsoleWarn (''Could not fill field '' @ fieldName @ '':'') \<notin> set c3"
    by auto
  have "fillAllFieldsWithLib form fieldValues = (f3, c3)"
    using s1 s2 s3 by (simp add: sp fillAllFieldsWithLib_def)
  with g3 w3 show ?thesis by simp
qed

section \<open>Filling: the claims\<close>

text \<open>
  C1, at the input where the code departs from it. In \<^verbatim>\<open>fillPDFFieldsWithLib\<close> the
  comparison with \<open>checked\<close> is missing: the value \<open>checked\<close> unchecks a checked box there,
  while \<^verbatim>\<open>fillPDFFields\<close> of the route checks the box, as the claim says. (The save is
  one that writes the document it is given.)
\<close>

theorem C1_checked_unchecks_with_lib:
  "fillPDFFieldsWithLib (\<lambda>form. Some (PDFBytes form))
       (PDFBytes [(''agree'', PDFCheckBox True)]) [(''agree'', ''checked'')]
     = (Inr (PDFBytes [(''agree'', PDFCheckBox False)]), []) \<and>
   fst (fillPDFFields (\<lambda>form. Some (PDFBytes form))
       (PDFBytes [(''agree'', PDFCheckBox False)]) [(''agree'', ''checked'')])
     = Inr (PDFBytes [(''agree'', PDFCheckBox True)])"
  by (simp add: fillPDFFieldsWithLib_def fillAllFieldsWithLib_def fillFieldWithLib_def
      fillFieldWithLibTry_def getField_def
      fillPDFFields_def fillAllFields_def fillField_def fillFieldTry_def putField_def
      shouldCheckWithLib_def shouldCheck_def toLowerCase_def toLowerChar_def
      upperCaseLetters_def lowerCaseLetters_def)

text \<open>
  C6, at the input where the code departs from it. A radio group has the options \<open>red\<close>
  and \<open>blue\<close> and the value map asks for \<open>green\<close>. \<^verbatim>\<open>fillPDFFieldsWithLib\<close> has no
  \<^verbatim>\<open>else\<close> on its choice branches: it skips the value and writes nothing, whatever the save
  does afterwards. \<^verbatim>\<open>fillPDFFields\<close> of the route writes the warning on the same input, as
  the claim says.
\<close>

theorem C6_no_warning_with_lib:
  "snd (fillPDFFieldsWithLib save
     (PDFBytes [(''color'', PDFRadioGroup [''red'', ''blue''] (Some ''red''))])
     [(''color'', ''green'')]) = [] \<and>
   invalidOptionWarning (PDFRadioGroup [''red'', ''blue''] (Some ''red'')) ''color'' ''green''
     \<in> set (snd (fillPDFFields save
         (PDFBytes [(''color'', PDFRadioGroup [''red'', ''blue''] (Some ''red''))])
         [(''color'', ''green'')]))"
  by (simp add: snd_fillPDFFields snd_fillPDFFieldsWithLib fillAllFields_def
      fillAllFieldsWithLib_def fillFieldWithLib_def fillFieldWithLibTry_def fillField_def
      fillFieldTry_def getField_def invalidOptionWarning_def)

text \<open>
  C9. Whenever \<^verbatim>\<open>fillPDFFields\<close> returns a document, extracting the descriptors from it
  gives the same sequence of (name, kind) pairs as extracting them from the original: the
  loop changes the values of fields and never the list of fields or the class of one. This
  is said of a save that writes the document it is given (\<^const>\<open>savesFaithfully\<close>); the
  loop's part, which needs no such premise, is \<open>fold_fillField_describe\<close>.
\<close>

theorem C9_fill_preserves_schema:
  assumes "savesFaithfully save"
    and "fst (fillPDFFields save pdfBuffer fieldValues) = Inr filled"
  shows "\<exists>before after.
           extractPDFFields pdfBuffer = Inr before \<and>
           extractPDFFields filled = Inr after \<and>
           map (\<lambda>f. (name f, type f)) after = map (\<lambda>f. (name f, type f)) before"
proof -
  from fillPDFFields_Inr [OF assms] obtain form where
    b: "pdfBuffer = PDFBytes form" and f: "filled = PDFBytes (fst (fillAllFields form fieldValues))"
    by blast
  obtain form' console where
    l: "fold fillField fieldValues (form, [ConsoleLog ''Filling PDF with values:'']) = (form', console)"
    by (cases "fold fillField fieldValues (form, [ConsoleLog ''Filling PDF with values:''])")
  have "extractPDFFields filled = Inr (map describeField form)"
    using fold_fillField_describe [OF l] l by (simp add: f extractPDFFields_def fillAllFields_def)
  moreover have "extractPDFFields pdfBuffer = Inr (map describeField form)"
    by (simp add: b extractPDFFields_def)
  ultimately show ?thesis by blast
qed

theorem C9_fill_preserves_schema_witness:
  "\<exists>before after.
     extractPDFFields
       (PDFBytes [(''full_name'', PDFTextField (Some 20) None), (''is_llc'', PDFCheckBox False),
                  (''color'', PDFRadioGroup [''red'', ''blue''] None)]) = Inr before \<and>
     extractPDFFields
       (PDFBytes [(''full_name'', PDFTextField (Some 20) (Some ''Ann'')), (''is_llc'', PDFCheckBox True),
                  (''color'', PDFRadioGroup [''red'', ''blue''] (Some ''blue''))]) = Inr after \<and>
     map (\<lambda>f. (name f, type f)) after = map (\<lambda>f. (name f, type f)) before"
proof (rule C9_fill_preserves_schema [where save = "\<lambda>form. Some (PDFBytes form)"
      and fieldValues = "[(''full_name'', ''Ann''), (''is_llc'', ''yes''), (''color'', ''blue'')]"])
  show "savesFaithfully (\<lambda>form. Some (PDFBytes form))"
    by (simp add: savesFaithfully_def)
  show "fst (fillPDFFields (\<lambda>form. Some (PDFBytes form))
       (PDFBytes [(''full_name'', PDFTextField (Some 20) None), (''is_llc'', PDFCheckBox False),
                  (''color'', PDFRadioGroup [''red'', ''blue''] None)])
       [(''full_name'', ''Ann''), (''is_llc'', ''yes''), (''color'', ''blue'')])
     = Inr (PDFBytes [(''full_name'', PDFTextField (Some 20) (Some ''Ann'')),
                      (''is_llc'', PDFCheckBox True),
                      (''color'', PDFRadioGroup [''red'', ''blue''] (Some ''blue''))])"
    by (simp add: fillPDFFields_def fillAllFields_def fillField_def fillFieldTry_def getField_def
        putField_def shouldCheck_def toLowerCase_def toLowerChar_def upperCaseLetters_def
        lowerCaseLetters_def)
qed




section \<open>Repairing the model's answer: lemmas\<close>

lemma take_eq_length: "take (length w) xs = w \<Longrightarrow> length w \<le> length xs"
  by (drule arg_cong [where f = length]) (simp add: min_def split: if_splits)

lemma take_word_append:
  assumes "\<forall>x \<in> set w. isWordChar x" "\<not> isWordChar c"
  shows "take (length w) (xs @ c # ys) = w \<longleftrightarrow> take (length w) xs = w"
proof (cases "length w \<le> length xs")
  case True
  then show ?thesis by simp
next
  case False
  then have short: "length xs < length w" by simp
  have "take (length w) xs \<noteq> w"
    using short take_eq_length [of w xs] by auto
  moreover have "take (length w) (xs @ c # ys) \<noteq> w"
  proof
    assume eq: "take (length w) (xs @ c # ys) = w"
    have "(take (length w) (xs @ c # ys)) ! length xs = c"
      using short by (simp add: nth_append)
    with eq have "w ! length xs = c" by simp
    with short have "c \<in> set w" by (metis nth_mem)
    with assms show False by blast
  qed
  ultimately show ?thesis by simp
qed

lemma replaceWord_split:
  assumes w: "w \<noteq> []" "\<forall>x \<in> set w. isWordChar x" and c: "\<not> isWordChar c"
  shows "replaceWord w r p (xs @ c # ys) = replaceWord w r p xs @ c # replaceWord w r False ys"
  using w
proof (induction w r p xs rule: replaceWord.induct)
  case (1 w r prevIsWord)
  have "take (length w) (c # ys) \<noteq> w"
  proof
    assume "take (length w) (c # ys) = w"
    with 1(1) have "hd w = c" by (cases w) auto
    with 1 c show False by (cases w) auto
  qed
  then show ?case using c by (simp add: replaceWord.simps)
next
  case (2 w r prevIsWord a cs)
  let ?match = "\<not> prevIsWord \<and> take (length w) (a # cs) = w \<and>
         (case drop (length w - 1) cs of [] \<Rightarrow> True | d # ds \<Rightarrow> \<not> isWordChar d)"
  have tk: "take (length w) (a # cs @ c # ys) = w \<longleftrightarrow> take (length w) (a # cs) = w"
    using take_word_append [OF 2(4) c, of "a # cs" ys] by simp
  show ?case
  proof (cases ?match)
    case True
    then have "take (length w) (a # cs) = w" by simp
    then have len: "length w - 1 \<le> length cs"
      using take_eq_length [of w "a # cs"] by auto
    then have dr: "drop (length w - 1) (cs @ c # ys) = drop (length w - 1) cs @ c # ys"
      by simp
    have look: "(case drop (length w - 1) (cs @ c # ys) of [] \<Rightarrow> True | d # ds \<Rightarrow> \<not> isWordChar d)"
      using True c unfolding dr by (cases "drop (length w - 1) cs") auto
    from True tk look have m': "\<not> prevIsWord \<and> take (length w) (a # cs @ c # ys) = w \<and>
         (case drop (length w - 1) (cs @ c # ys) of [] \<Rightarrow> True | d # ds \<Rightarrow> \<not> isWordChar d)"
      by simp
    have "replaceWord w r prevIsWord (a # cs @ c # ys) =
        r @ replaceWord w r True (drop (length w - 1) (cs @ c # ys))"
      by (subst replaceWord.simps(2)) (rule if_P [OF m'])
    then have "replaceWord w r prevIsWord ((a # cs) @ c # ys) =
        r @ replaceWord w r True (drop (length w - 1) cs @ c # ys)"
      by (simp only: dr append_Cons)
    also have "\<dots> = r @ replaceWord w r True (drop (length w - 1) cs) @ c # replaceWord w r False ys"
      using 2(1) [OF True 2(3,4)] by simp
    also have "\<dots> = replaceWord w r prevIsWord (a # cs) @ c # replaceWord w r False ys"
    proof -
      have "replaceWord w r prevIsWord (a # cs) = r @ replaceWord w r True (drop (length w - 1) cs)"
        by (subst replaceWord.simps(2)) (rule if_P [OF True])
      then show ?thesis by simp
    qed
    finally show ?thesis .
  next
    case False
    have nm: "\<not> (\<not> prevIsWord \<and> take (length w) (a # cs @ c # ys) = w \<and>
         (case drop (length w - 1) (cs @ c # ys) of [] \<Rightarrow> True | d # ds \<Rightarrow> \<not> isWordChar d))"
    proof
      assume m: "\<not> prevIsWord \<and> take (length w) (a # cs @ c # ys) = w \<and>
         (case drop (length w - 1) (cs @ c # ys) of [] \<Rightarrow> True | d # ds \<Rightarrow> \<not> isWordChar d)"
      then have t: "take (length w) (a # cs) = w" using tk by simp
      then have len: "length w - 1 \<le> length cs"
        using take_eq_length [of w "a # cs"] by auto
      then have dr: "drop (length w - 1) (cs @ c # ys) = drop (length w - 1) cs @ c # ys"
        by simp
      have "(case drop (length w - 1) cs of [] \<Rightarrow> True | d # ds \<Rightarrow> \<not> isWordChar d)"
        using m unfolding dr by (cases "drop (length w - 1) cs") auto
      with m t False show False by simp
    qed
    have "replaceWord w r prevIsWord (a # cs @ c # ys) =
        a # replaceWord w r (isWordChar a) (cs @ c # ys)"
      by (subst replaceWord.simps(2)) (rule if_not_P [OF nm])
    then have "replaceWord w r prevIsWord ((a # cs) @ c # ys) =
        a # replaceWord w r (isWordChar a) (cs @ c # ys)"
      by (simp only: append_Cons)
    also have "\<dots> = a # replaceWord w r (isWordChar a) cs @ c # replaceWord w r False ys"
      using 2(2) [OF False 2(3,4)] by simp
    also have "\<dots> = replaceWord w r prevIsWord (a # cs) @ c # replaceWord w r False ys"
    proof -
      have "replaceWord w r prevIsWord (a # cs) = a # replaceWord w r (isWordChar a) cs"
        by (subst replaceWord.simps(2)) (rule if_not_P [OF False])
      then show ?thesis by simp
    qed
    finally show ?thesis .
  qed
qed

lemma replaceWord_notin:
  "c \<notin> set s \<Longrightarrow> c \<notin> set r \<Longrightarrow> c \<notin> set (replaceWord w r p s)"
proof (induction w r p s rule: replaceWord.induct)
  case (1 w r prevIsWord)
  then show ?case by (simp add: replaceWord.simps)
next
  case (2 w r prevIsWord a cs)
  have "c \<notin> set (drop (length w - 1) cs)"
    using 2(3) by (auto dest: in_set_dropD)
  with 2 show ?case by (auto simp: replaceWord.simps)
qed

lemma wordChars_True: "\<forall>x \<in> set ''True''. isWordChar x"
  by (simp add: isWordChar_def)

lemma wordChars_False: "\<forall>x \<in> set ''False''. isWordChar x"
  by (simp add: isWordChar_def)

lemma pythonBooleansToJson_split:
  "\<not> isWordChar c \<Longrightarrow>
   pythonBooleansToJson (xs @ c # ys) = pythonBooleansToJson xs @ c # pythonBooleansToJson ys"
  unfolding pythonBooleansToJson_def
  by (simp add: replaceWord_split wordChars_True wordChars_False)

lemma pythonBooleansToJson_notin:
  "c \<notin> set s \<Longrightarrow> c \<notin> set ''true'' \<Longrightarrow> c \<notin> set ''false'' \<Longrightarrow> c \<notin> set (pythonBooleansToJson s)"
  unfolding pythonBooleansToJson_def
  by (intro replaceWord_notin)

lemma pythonBooleansToJson_Nil: "pythonBooleansToJson [] = []"
  by (simp add: pythonBooleansToJson_def replaceWord.simps)

lemma braced_drop:
  assumes "braced mid t" "CHR ''{'' \<notin> set (take n t)"
  shows "braced mid (drop n t)"
proof -
  from assms(1) obtain pre post where
    t: "t = pre @ CHR ''{'' # mid @ CHR ''}'' # post"
    and pre: "CHR ''{'' \<notin> set pre" and post: "CHR ''}'' \<notin> set post"
    by (auto simp: braced_def)
  have "n \<le> length pre"
  proof (rule ccontr)
    assume "\<not> n \<le> length pre"
    then have "length pre < n" by simp
    then have "take n t ! length pre = CHR ''{''" by (simp add: t nth_append)
    moreover have "length pre < length (take n t)" using \<open>length pre < n\<close> by (simp add: t)
    ultimately have "CHR ''{'' \<in> set (take n t)" by (metis nth_mem)
    with assms(2) show False by simp
  qed
  then have "drop n t = drop n pre @ CHR ''{'' # mid @ CHR ''}'' # post" by (simp add: t)
  moreover have "CHR ''{'' \<notin> set (drop n pre)" using pre by (auto dest: in_set_dropD)
  ultimately show ?thesis using post unfolding braced_def by blast
qed

lemma braced_take:
  assumes "braced mid t" "CHR ''}'' \<notin> set (drop m t)"
  shows "braced mid (take m t)"
proof -
  from assms(1) obtain pre post where
    t: "t = pre @ CHR ''{'' # mid @ CHR ''}'' # post"
    and pre: "CHR ''{'' \<notin> set pre" and post: "CHR ''}'' \<notin> set post"
    by (auto simp: braced_def)
  define front where "front = pre @ CHR ''{'' # mid"
  have t': "t = front @ CHR ''}'' # post" by (simp add: t front_def)
  have "length front < m"
  proof (rule ccontr)
    assume "\<not> length front < m"
    then have le: "m - length front = 0" by simp
    have "drop m t = drop m front @ drop (m - length front) (CHR ''}'' # post)"
      unfolding t' by (rule drop_append)
    then have "CHR ''}'' \<in> set (drop m t)" using le by simp
    with assms(2) show False by simp
  qed
  then obtain j where j: "m - length front = Suc j" and fm: "length front \<le> m"
    by (cases "m - length front") auto
  have "take m t = take m front @ take (m - length front) (CHR ''}'' # post)"
    unfolding t' by (rule take_append)
  then have "take m t = front @ CHR ''}'' # take j post"
    using j fm by simp
  then have "take m t = pre @ CHR ''{'' # mid @ CHR ''}'' # take j post"
    by (simp add: front_def)
  moreover have "CHR ''}'' \<notin> set (take j post)"
    using post by (auto dest: in_set_takeD)
  ultimately show ?thesis using pre unfolding braced_def by blast
qed

lemma braced_dropWhile:
  assumes "braced mid t" "\<not> P (CHR ''{'')"
  shows "braced mid (dropWhile P t)"
proof -
  have "dropWhile P t = drop (length (takeWhile P t)) t"
    by (rule dropWhile_eq_drop)
  moreover have "CHR ''{'' \<notin> set (take (length (takeWhile P t)) t)"
    using assms(2) by (metis set_takeWhileD takeWhile_eq_take)
  ultimately show ?thesis using braced_drop [OF assms(1)] by simp
qed

lemma braced_dropWhile_end:
  assumes "braced mid t" "\<not> P (CHR ''}'')"
  shows "braced mid (rev (dropWhile P (rev t)))"
proof -
  let ?k = "length (takeWhile P (rev t))"
  have "rev (dropWhile P (rev t)) = rev (drop ?k (rev t))"
    by (simp add: dropWhile_eq_drop)
  also have "\<dots> = take (length t - ?k) t"
    by (simp add: rev_drop)
  finally have eq: "rev (dropWhile P (rev t)) = take (length t - ?k) t" .
  have "drop (length t - ?k) t = rev (take ?k (rev t))"
    by (simp add: rev_take)
  also have "\<dots> = rev (takeWhile P (rev t))"
    by (simp add: takeWhile_eq_take [symmetric])
  finally have "set (drop (length t - ?k) t) = set (takeWhile P (rev t))" by simp
  then have "CHR ''}'' \<notin> set (drop (length t - ?k) t)"
    using assms(2) by (auto dest: set_takeWhileD)
  from braced_take [OF assms(1) this] eq show ?thesis by simp
qed

lemma braced_trim: "braced mid t \<Longrightarrow> braced mid (trim t)"
  unfolding trim_def
  by (intro braced_dropWhile_end braced_dropWhile) (simp_all add: isWhiteSpace_def)

lemma toLowerChar_brace: "toLowerChar c \<in> set ''json'' \<Longrightarrow> c \<noteq> CHR ''{''"
  by (auto simp: toLowerChar_def upperCaseLetters_def lowerCaseLetters_def)

lemma braced_stripLeadingFence: "braced mid t \<Longrightarrow> braced mid (stripLeadingFence t)"
proof -
  assume b: "braced mid t"
  show ?thesis
  proof (cases "startsWith t ''```''")
    case False
    with b show ?thesis by (simp add: stripLeadingFence_def)
  next
    case True
    then have "take 3 t = ''```''" by (simp add: startsWith_def numeral_3_eq_3)
    then have "CHR ''{'' \<notin> set (take 3 t)" by simp
    from braced_drop [OF b this] have b3: "braced mid (drop 3 t)" .
    show ?thesis
    proof (cases "toLowerCase (take 4 (drop 3 t)) = ''json''")
      case False
      with True b3 show ?thesis by (simp add: stripLeadingFence_def Let_def)
    next
      case json: True
      have "CHR ''{'' \<notin> set (take 4 (drop 3 t))"
      proof
        assume "CHR ''{'' \<in> set (take 4 (drop 3 t))"
        then have "toLowerChar (CHR ''{'') \<in> set (toLowerCase (take 4 (drop 3 t)))"
          unfolding toLowerCase_def by (metis image_eqI set_map)
        with json have "toLowerChar (CHR ''{'') \<in> set ''json''" by simp
        with toLowerChar_brace show False by blast
      qed
      from braced_drop [OF b3 this] True json show ?thesis
        by (simp add: stripLeadingFence_def Let_def)
    qed
  qed
qed

lemma braced_stripTrailingFence: "braced mid t \<Longrightarrow> braced mid (stripTrailingFence t)"
proof -
  assume b: "braced mid t"
  show ?thesis
  proof (cases "endsWith t ''```''")
    case False
    with b show ?thesis by (simp add: stripTrailingFence_def)
  next
    case True
    then have "drop (length t - 3) t = ''```''" by (simp add: endsWith_def numeral_3_eq_3)
    then have "CHR ''}'' \<notin> set (drop (length t - 3) t)" by simp
    from braced_take [OF b this] True show ?thesis by (simp add: stripTrailingFence_def)
  qed
qed

lemma notWord_braces: "\<not> isWordChar (CHR ''{'')" "\<not> isWordChar (CHR ''}'')"
  by (simp_all add: isWordChar_def)

lemma pythonBooleansToJson_braced:
  assumes "braced mid t"
  shows "\<exists>a b. pythonBooleansToJson t =
           a @ pythonBooleansToJson (CHR ''{'' # mid @ ''}'') @ b \<and>
           CHR ''{'' \<notin> set a \<and> CHR ''}'' \<notin> set b"
proof -
  from assms obtain pre post where
    t: "t = pre @ CHR ''{'' # mid @ CHR ''}'' # post"
    and pre: "CHR ''{'' \<notin> set pre" and post: "CHR ''}'' \<notin> set post"
    by (auto simp: braced_def)
  have body: "pythonBooleansToJson (CHR ''{'' # mid @ ''}'') =
      CHR ''{'' # pythonBooleansToJson mid @ ''}''"
    using pythonBooleansToJson_split [OF notWord_braces(1), of "[]" "mid @ ''}''"]
      pythonBooleansToJson_split [OF notWord_braces(2), of mid "[]"]
    by (simp add: pythonBooleansToJson_Nil)
  have "pythonBooleansToJson t =
      pythonBooleansToJson pre @ CHR ''{'' # pythonBooleansToJson mid @ CHR ''}'' #
        pythonBooleansToJson post"
    unfolding t
    using pythonBooleansToJson_split [OF notWord_braces(1), of pre "mid @ CHR ''}'' # post"]
      pythonBooleansToJson_split [OF notWord_braces(2), of mid post]
    by simp
  then have "pythonBooleansToJson t =
      pythonBooleansToJson pre @ pythonBooleansToJson (CHR ''{'' # mid @ ''}'') @
        pythonBooleansToJson post"
    by (simp add: body)
  moreover have "CHR ''{'' \<notin> set (pythonBooleansToJson pre)"
    using pre by (intro pythonBooleansToJson_notin) simp_all
  moreover have "CHR ''}'' \<notin> set (pythonBooleansToJson post)"
    using post by (intro pythonBooleansToJson_notin) simp_all
  ultimately show ?thesis by blast
qed

lemma slice_braces:
  assumes a: "CHR ''{'' \<notin> set a" and b: "CHR ''}'' \<notin> set b"
  shows "indexOf (a @ (CHR ''{'' # m @ ''}'') @ b) (CHR ''{'') = int (length a)"
    and "lastIndexOf (a @ (CHR ''{'' # m @ ''}'') @ b) (CHR ''}'') = int (length a + length m + 1)"
    and "slice (a @ (CHR ''{'' # m @ ''}'') @ b) (int (length a)) (int (length a + length m + 1) + 1)
          = CHR ''{'' # m @ ''}''"
proof -
  have a': "\<And>x. x \<in> set a \<Longrightarrow> x \<noteq> CHR ''{''" using a by auto
  have b': "\<And>x. x \<in> set (rev b) \<Longrightarrow> x \<noteq> CHR ''}''" using b by auto
  have "takeWhile (\<lambda>x. x \<noteq> CHR ''{'') (a @ CHR ''{'' # m @ CHR ''}'' # b) = a"
    using takeWhile_append2 [of a "\<lambda>x. x \<noteq> CHR ''{''", OF a'] by simp
  then show "indexOf (a @ (CHR ''{'' # m @ ''}'') @ b) (CHR ''{'') = int (length a)"
    by (simp add: indexOf_def)
  have "takeWhile (\<lambda>x. x \<noteq> CHR ''}'') (rev b @ CHR ''}'' # rev m @ CHR ''{'' # rev a) = rev b"
    using takeWhile_append2 [of "rev b" "\<lambda>x. x \<noteq> CHR ''}''", OF b'] by simp
  then show "lastIndexOf (a @ (CHR ''{'' # m @ ''}'') @ b) (CHR ''}'') = int (length a + length m + 1)"
    by (simp add: lastIndexOf_def)
  show "slice (a @ (CHR ''{'' # m @ ''}'') @ b) (int (length a)) (int (length a + length m + 1) + 1)
          = CHR ''{'' # m @ ''}''"
    by (simp add: slice_def Let_def min_def nat_add_distrib)
qed

text \<open>
  What \<^verbatim>\<open>extractJsonObject\<close> returns for a text that holds \<open>{ mid }\<close> between a text
  without \<open>{\<close> and a text without \<open>}\<close>: the braces and what is between them, after the
  replacement of the words \<open>True\<close> and \<open>False\<close>.
\<close>

lemma extractJsonObject_braced:
  assumes "CHR ''{'' \<notin> set pre" "CHR ''}'' \<notin> set post"
  shows "extractJsonObject (pre @ (CHR ''{'' # mid @ ''}'') @ post) =
           Inr (pythonBooleansToJson (CHR ''{'' # mid @ ''}''))"
proof -
  let ?text = "pre @ (CHR ''{'' # mid @ ''}'') @ post"
  have b0: "braced mid ?text" using assms unfolding braced_def by auto
  let ?t0 = "trim ?text"
  let ?t1 = "if startsWith ?t0 ''```'' then trim (stripTrailingFence (stripLeadingFence ?t0)) else ?t0"
  have "braced mid ?t1"
    using b0 by (auto intro!: braced_trim braced_stripTrailingFence braced_stripLeadingFence)
  from pythonBooleansToJson_braced [OF this] obtain a b where
    eq: "pythonBooleansToJson ?t1 = a @ pythonBooleansToJson (CHR ''{'' # mid @ ''}'') @ b"
    and a: "CHR ''{'' \<notin> set a" and b: "CHR ''}'' \<notin> set b"
    by blast
  have body: "pythonBooleansToJson (CHR ''{'' # mid @ ''}'') =
      CHR ''{'' # pythonBooleansToJson mid @ ''}''"
    using pythonBooleansToJson_split [OF notWord_braces(1), of "[]" "mid @ ''}''"]
      pythonBooleansToJson_split [OF notWord_braces(2), of mid "[]"]
    by (simp add: pythonBooleansToJson_Nil)
  have "extractJsonObject ?text =
     (let t = pythonBooleansToJson ?t1;
          start = indexOf t (CHR ''{'');
          end = lastIndexOf t (CHR ''}'')
      in if start = - 1 \<or> end = - 1 \<or> end \<le> start
         then Inl ''No JSON object found in model output''
         else Inr (slice t start (end + 1)))"
    by (simp only: extractJsonObject_def Let_def)
  also have "\<dots> = Inr (CHR ''{'' # pythonBooleansToJson mid @ ''}'')"
    unfolding eq body Let_def
    using slice_braces [OF a b, of "pythonBooleansToJson mid"]
    by simp
  finally show ?thesis by (simp add: body)
qed

text \<open>
  A text without the word is left alone by the replacement; a text of pieces and boolean
  literals is rewritten literal by literal.
\<close>

lemma replaceWord_no_occurrence:
  assumes w: "w \<noteq> []"
  shows "(\<And>a b. s = a @ w @ b \<Longrightarrow>
            (if a = [] then p else isWordChar (last a)) \<or> (b \<noteq> [] \<and> isWordChar (hd b))) \<Longrightarrow>
         replaceWord w r p s = s"
  using w
proof (induction w r p s rule: replaceWord.induct)
  case (1 w r prevIsWord)
  then show ?case by (simp add: replaceWord.simps)
next
  case (2 w r prevIsWord c cs)
  let ?match = "\<not> prevIsWord \<and> take (length w) (c # cs) = w \<and>
         (case drop (length w - 1) cs of [] \<Rightarrow> True | d # ds \<Rightarrow> \<not> isWordChar d)"
  have nomatch: "\<not> ?match"
  proof
    assume m: ?match
    then have tk: "take (length w) (c # cs) = w" by simp
    have dr: "drop (length w) (c # cs) = drop (length w - 1) cs"
      using 2(4) by (cases w) auto
    have "c # cs = [] @ w @ drop (length w - 1) cs"
      using append_take_drop_id [of "length w" "c # cs"] tk dr by simp
    from 2(3) [OF this] m show False
      by (cases "drop (length w - 1) cs") auto
  qed
  have "replaceWord w r (isWordChar c) cs = cs"
  proof (rule 2(2) [OF nomatch _ 2(4)])
    fix a b
    assume "cs = a @ w @ b"
    then have "c # cs = (c # a) @ w @ b" by simp
    from 2(3) [OF this]
    show "(if a = [] then isWordChar c else isWordChar (last a)) \<or> (b \<noteq> [] \<and> isWordChar (hd b))"
      by (cases "a = []") auto
  qed
  moreover have "replaceWord w r prevIsWord (c # cs) = c # replaceWord w r (isWordChar c) cs"
    by (subst replaceWord.simps(2)) (rule if_not_P [OF nomatch])
  ultimately show ?case by simp
qed

lemma replaceWord_not_occursAsWord:
  assumes "w \<noteq> []" "\<not> occursAsWord w s"
  shows "replaceWord w r False s = s"
proof (rule replaceWord_no_occurrence [OF assms(1)])
  fix a b
  assume "s = a @ w @ b"
  with assms(2) show "(if a = [] then False else isWordChar (last a)) \<or> (b \<noteq> [] \<and> isWordChar (hd b))"
    unfolding occursAsWord_def by auto
qed

lemma pythonBooleansToJson_piece: "jsonPiece g \<Longrightarrow> pythonBooleansToJson g = g"
  by (simp add: jsonPiece_def pythonBooleansToJson_def replaceWord_not_occursAsWord)

lemma pythonBooleansToJson_append_left:
  assumes "x \<noteq> []" "\<not> isWordChar (last x)"
  shows "pythonBooleansToJson (x @ z) = pythonBooleansToJson x @ pythonBooleansToJson z"
proof -
  from assms(1) obtain x' c where x: "x = x' @ [c]" by (metis rev_exhaust)
  with assms(2) have c: "\<not> isWordChar c" by simp
  have "pythonBooleansToJson (x @ z) = pythonBooleansToJson (x' @ c # z)" by (simp add: x)
  also have "\<dots> = pythonBooleansToJson x' @ c # pythonBooleansToJson z"
    by (rule pythonBooleansToJson_split [OF c])
  also have "pythonBooleansToJson x' @ [c] = pythonBooleansToJson x"
    using pythonBooleansToJson_split [OF c, of x' "[]"] by (simp add: x pythonBooleansToJson_Nil)
  then have "pythonBooleansToJson x' @ c # pythonBooleansToJson z =
      pythonBooleansToJson x @ pythonBooleansToJson z"
    by (metis append_Cons append_Nil append_assoc)
  finally show ?thesis .
qed

lemma pythonBooleansToJson_append_right:
  assumes "y \<noteq> []" "\<not> isWordChar (hd y)"
  shows "pythonBooleansToJson (z @ y) = pythonBooleansToJson z @ pythonBooleansToJson y"
proof -
  from assms obtain d y' where y: "y = d # y'" and d: "\<not> isWordChar d" by (cases y) auto
  have "pythonBooleansToJson (z @ d # y') = pythonBooleansToJson z @ d # pythonBooleansToJson y'"
    by (rule pythonBooleansToJson_split [OF d])
  moreover have "pythonBooleansToJson (d # y') = d # pythonBooleansToJson y'"
    using pythonBooleansToJson_split [OF d, of "[]" y'] by (simp add: pythonBooleansToJson_Nil)
  ultimately show ?thesis by (simp add: y)
qed

lemma pythonBooleansToJson_pyBool: "pythonBooleansToJson (pyBool b) = jsonBool b"
  by (cases b; simp add: pyBool_def jsonBool_def pythonBooleansToJson_def replaceWord.simps
      isWordChar_def)

lemma pythonBooleansToJson_jsonBool: "pythonBooleansToJson (jsonBool b) = jsonBool b"
  by (cases b; simp add: jsonBool_def pythonBooleansToJson_def replaceWord.simps isWordChar_def)

lemma pythonText_starts:
  "jsonPiece g \<Longrightarrow> pythonText g rest \<noteq> [] \<and> hd (pythonText g rest) = hd g"
  by (cases rest) (auto simp: jsonPiece_def)

lemma jsonText_starts:
  "jsonPiece g \<Longrightarrow> jsonText g rest \<noteq> [] \<and> hd (jsonText g rest) = hd g"
  by (cases rest) (auto simp: jsonPiece_def)

lemma pythonBooleansToJson_pythonText:
  "jsonPiece g \<Longrightarrow> \<forall>(b, g') \<in> set rest. jsonPiece g' \<Longrightarrow>
   pythonBooleansToJson (pythonText g rest) = jsonText g rest"
proof (induction rest arbitrary: g)
  case Nil
  then show ?case by (simp add: pythonBooleansToJson_piece)
next
  case (Cons e rest)
  obtain b g' where e: "e = (b, g')" by (cases e)
  from Cons.prems have g': "jsonPiece g'" and rest: "\<forall>(b, g') \<in> set rest. jsonPiece g'"
    by (auto simp: e)
  have g: "g \<noteq> []" "\<not> isWordChar (last g)" using Cons.prems(1) by (auto simp: jsonPiece_def)
  have t: "pythonText g' rest \<noteq> []" "\<not> isWordChar (hd (pythonText g' rest))"
    using pythonText_starts [OF g', of rest] g' by (auto simp: jsonPiece_def)
  have "pythonBooleansToJson (pythonText g (e # rest)) =
      pythonBooleansToJson g @ pythonBooleansToJson (pyBool b @ pythonText g' rest)"
    by (simp add: e pythonBooleansToJson_append_left [OF g])
  also have "\<dots> = g @ jsonBool b @ pythonBooleansToJson (pythonText g' rest)"
    by (simp add: pythonBooleansToJson_append_right [OF t] pythonBooleansToJson_pyBool
        pythonBooleansToJson_piece [OF Cons.prems(1)])
  also have "\<dots> = jsonText g (e # rest)"
    by (simp add: e Cons.IH [OF g' rest])
  finally show ?case .
qed

lemma pythonBooleansToJson_jsonText:
  "jsonPiece g \<Longrightarrow> \<forall>(b, g') \<in> set rest. jsonPiece g' \<Longrightarrow>
   pythonBooleansToJson (jsonText g rest) = jsonText g rest"
proof (induction rest arbitrary: g)
  case Nil
  then show ?case by (simp add: pythonBooleansToJson_piece)
next
  case (Cons e rest)
  obtain b g' where e: "e = (b, g')" by (cases e)
  from Cons.prems have g': "jsonPiece g'" and rest: "\<forall>(b, g') \<in> set rest. jsonPiece g'"
    by (auto simp: e)
  have g: "g \<noteq> []" "\<not> isWordChar (last g)" using Cons.prems(1) by (auto simp: jsonPiece_def)
  have t: "jsonText g' rest \<noteq> []" "\<not> isWordChar (hd (jsonText g' rest))"
    using jsonText_starts [OF g', of rest] g' by (auto simp: jsonPiece_def)
  have "pythonBooleansToJson (jsonText g (e # rest)) =
      pythonBooleansToJson g @ pythonBooleansToJson (jsonBool b @ jsonText g' rest)"
    by (simp add: e pythonBooleansToJson_append_left [OF g])
  also have "\<dots> = g @ jsonBool b @ pythonBooleansToJson (jsonText g' rest)"
    by (simp add: pythonBooleansToJson_append_right [OF t] pythonBooleansToJson_jsonBool
        pythonBooleansToJson_piece [OF Cons.prems(1)])
  also have "\<dots> = jsonText g (e # rest)"
    by (simp add: e Cons.IH [OF g' rest])
  finally show ?case .
qed

lemma last_pythonText: "pythonText g rest \<noteq> [] \<Longrightarrow> jsonPiece g \<Longrightarrow>
   \<forall>(b, g') \<in> set rest. jsonPiece g' \<Longrightarrow>
   last (pythonText g rest) = last (last (g # map snd rest))"
proof (induction rest arbitrary: g)
  case Nil
  then show ?case by simp
next
  case (Cons e rest)
  obtain b g' where e: "e = (b, g')" by (cases e)
  from Cons.prems have g': "jsonPiece g'" and rest: "\<forall>(b, g') \<in> set rest. jsonPiece g'"
    by (auto simp: e)
  have ne: "pythonText g' rest \<noteq> []" using pythonText_starts [OF g'] by simp
  from Cons.IH [OF ne g' rest] ne show ?case by (simp add: e)
qed

lemma last_jsonText: "jsonPiece g \<Longrightarrow>
   \<forall>(b, g') \<in> set rest. jsonPiece g' \<Longrightarrow>
   last (jsonText g rest) = last (last (g # map snd rest))"
proof (induction rest arbitrary: g)
  case Nil
  then show ?case by simp
next
  case (Cons e rest)
  obtain b g' where e: "e = (b, g')" by (cases e)
  from Cons.prems have g': "jsonPiece g'" and rest: "\<forall>(b, g') \<in> set rest. jsonPiece g'"
    by (auto simp: e)
  have ne: "jsonText g' rest \<noteq> []" using jsonText_starts [OF g'] by simp
  from Cons.IH [OF g' rest] ne show ?case by (simp add: e)
qed

lemma braces_around:
  assumes "t \<noteq> []" "hd t = CHR ''{''" "last t = CHR ''}''"
  shows "\<exists>mid. t = CHR ''{'' # mid @ ''}''"
proof -
  from assms(1,2) obtain r where t: "t = CHR ''{'' # r" by (cases t) auto
  with assms(3) have "r \<noteq> []" by (cases r) auto
  then obtain mid c where r: "r = mid @ [c]" by (metis rev_exhaust)
  with t assms(3) have "c = CHR ''}''" by simp
  with t r show ?thesis by simp
qed

lemma not_occursAsWord_char: "w \<noteq> [] \<Longrightarrow> hd w \<notin> set s \<Longrightarrow> \<not> occursAsWord w s"
  by (cases w) (auto simp: occursAsWord_def)

section \<open>Repairing the model's answer: the claims\<close>

text \<open>
  C3, as the code has it, for \<^verbatim>\<open>extractJsonObject\<close>. Take a JSON object text whose boolean
  literals are written \<open>True\<close> and \<open>False\<close>, each a word of its own outside every string
  literal, the rest of the text holding neither word; put any text without \<open>{\<close> before it
  and any text without \<open>}\<close> behind it (white space, a \<open>```json\<close> fence, commentary). Then
  the function returns exactly the object text with \<open>true\<close> and \<open>false\<close>, which is also
  what it returns for that clean text alone: both answers are decoded from the same text.
\<close>

theorem C3_extractJsonObject_repairs:
  assumes "CHR ''{'' \<notin> set pre" and "CHR ''}'' \<notin> set post"
    and "jsonPiece g" and "\<forall>(b, g') \<in> set rest. jsonPiece g'"
    and "hd g = CHR ''{''" and "last (last (g # map snd rest)) = CHR ''}''"
  shows "extractJsonObject (pre @ pythonText g rest @ post) = Inr (jsonText g rest) \<and>
         extractJsonObject (jsonText g rest) = Inr (jsonText g rest)"
proof -
  have py: "pythonText g rest \<noteq> []" "hd (pythonText g rest) = CHR ''{''"
    using pythonText_starts [OF assms(3), of rest] assms(5) by simp_all
  have "last (pythonText g rest) = CHR ''}''"
    using last_pythonText [OF py(1) assms(3,4)] assms(6) by simp
  from braces_around [OF py this] obtain mid where mid: "pythonText g rest = CHR ''{'' # mid @ ''}''"
    by blast
  have js: "jsonText g rest \<noteq> []" "hd (jsonText g rest) = CHR ''{''"
    using jsonText_starts [OF assms(3), of rest] assms(5) by simp_all
  have "last (jsonText g rest) = CHR ''}''"
    using last_jsonText [OF assms(3,4)] assms(6) by simp
  from braces_around [OF js this] obtain mid' where mid': "jsonText g rest = CHR ''{'' # mid' @ ''}''"
    by blast
  have "extractJsonObject (pre @ (CHR ''{'' # mid @ ''}'') @ post) =
      Inr (pythonBooleansToJson (CHR ''{'' # mid @ ''}''))"
    by (rule extractJsonObject_braced [OF assms(1,2)])
  then have first: "extractJsonObject (pre @ pythonText g rest @ post) = Inr (jsonText g rest)"
    by (simp only: mid [symmetric] pythonBooleansToJson_pythonText [OF assms(3,4)])
  have "extractJsonObject ([] @ (CHR ''{'' # mid' @ ''}'') @ []) =
      Inr (pythonBooleansToJson (CHR ''{'' # mid' @ ''}''))"
    by (rule extractJsonObject_braced) simp_all
  then have "extractJsonObject (jsonText g rest) = Inr (jsonText g rest)"
    by (simp only: mid' [symmetric] pythonBooleansToJson_jsonText [OF assms(3,4)] append_Nil
        append_Nil2)
  with first show ?thesis by simp
qed

theorem C3_extractJsonObject_witness:
  \<open>extractJsonObject
      ''Sure, here is the JSON: ```json {"is_llc": True, "full_name": "Ann", "ok": False} ``` Hope this helps.''
     = Inr ''{"is_llc": true, "full_name": "Ann", "ok": false}'' \<and>
   extractJsonObject ''{"is_llc": true, "full_name": "Ann", "ok": false}''
     = Inr ''{"is_llc": true, "full_name": "Ann", "ok": false}''\<close>
proof -
  have p1: \<open>jsonPiece ''{"is_llc": ''\<close>
    by (simp add: jsonPiece_def isWordChar_def not_occursAsWord_char)
  have p2: \<open>\<forall>(b, g') \<in> set [(True, '', "full_name": "Ann", "ok": ''), (False, ''}'')]. jsonPiece g'\<close>
    by (simp add: jsonPiece_def isWordChar_def not_occursAsWord_char)
  from C3_extractJsonObject_repairs [of "''Sure, here is the JSON: ```json ''"
      "'' ``` Hope this helps.''" \<open>''{"is_llc": ''\<close>
      \<open>[(True, '', "full_name": "Ann", "ok": ''), (False, ''}'')]\<close>, OF _ _ p1 p2]
  show ?thesis
    by (simp add: pyBool_def jsonBool_def)
qed

text \<open>
  C3 as stated fails, in two ways. The parser of the fill flow, \<^verbatim>\<open>cleanAIResponse\<close>,
  only trims and removes \<open>```json\<close> at the start and \<open>```\<close> at the end: it keeps
  \<open>True\<close>, and with commentary around the fence it keeps the commentary and the fence,
  where \<^verbatim>\<open>extractJsonObject\<close> gives the clean object. And \<^verbatim>\<open>extractJsonObject\<close> itself
  slices at the first \<open>{\<close> of the whole text, so commentary that holds a brace ends up in
  its result.
\<close>

theorem C3_cleanAIResponse_counterexample:
  \<open>cleanAIResponse ''```json {"ok": True} ```'' = ''{"ok": True}'' \<and>
   cleanAIResponse ''Here you go: ```json {"ok": true} ``` Done.''
     = ''Here you go: ```json {"ok": true} ``` Done.'' \<and>
   extractJsonObject ''```json {"ok": True} ```'' = Inr ''{"ok": true}'' \<and>
   extractJsonObject ''Here you go: ```json {"ok": true} ``` Done.'' = Inr ''{"ok": true}'' \<and>
   extractJsonObject ''Use {name} as the key: ```json {"ok": true} ```''
     = Inr ''{name} as the key: ```json {"ok": true}''\<close>
  by code_simp

section \<open>The route handler: lemmas\<close>

lemma isString_iff: "isString v \<longleftrightarrow> (\<exists>s. v = JString s)"
  by (cases v) auto

lemma validatePDFFields_iff:
  "validatePDFFields pdfFields \<longleftrightarrow>
     (\<forall>f \<in> set pdfFields. (\<exists>n. name f = JString n) \<and> (\<exists>t. type f = JString t))"
  by (simp add: validatePDFFields_def list_all_iff isString_iff)


lemma POST_fields_from_parse:
  assumes "responseFields (snd (POST w)) = Some m"
  shows "\<exists>body pdfBuffer pdfFields aiResponse parsed entries.
           requestJson w = Inr body \<and>
           downloadPDFFromUrl w (pdfUrl body) = Inr pdfBuffer \<and>
           extractPDFFields pdfBuffer = Inr pdfFields \<and>
           generateText w (extractPDFText w pdfBuffer, pdfFields, userInfo body) = Inr aiResponse \<and>
           jsonParse w (cleanAIResponse aiResponse) = Some parsed \<and>
           objectEntries parsed = Some entries \<and>
           m = sanitizeFieldValues entries pdfFields \<and>
           success (snd (POST w))"
  using assms
  by (auto simp: POST_def fillAndRespond_def failure_def Let_def
      split: if_splits sum.splits option.splits)

section \<open>The route handler: the claims\<close>

text \<open>
  C7, as the code has it. \<^verbatim>\<open>validatePDFFields\<close> tests the types of \<^verbatim>\<open>name\<close> and
  \<^verbatim>\<open>type\<close> and nothing else: it accepts a list of descriptors exactly when every name and
  every kind is a string, and a list it rejects makes the handler answer with status 400 and
  \<^verbatim>\<open>success: false\<close> before the model is asked. (The statement is about lists with at
  least one descriptor; what happens to the empty list is left open here.)
\<close>

theorem C7_validate_checks_types_only:
  assumes "pdfFields \<noteq> []"
  shows "(validatePDFFields pdfFields \<longleftrightarrow>
            (\<forall>f \<in> set pdfFields. (\<exists>n. name f = JString n) \<and> (\<exists>t. type f = JString t))) \<and>
         (\<not> validatePDFFields pdfFields \<longrightarrow>
            fillAndRespond w body pdfBuffer pdfText pdfFields =
              (400, \<lparr>success = False, filledPdfUrl = None,
                     message = ''Invalid PDF fields extracted'', responseFields = None\<rparr>))"
  by (simp add: validatePDFFields_iff fillAndRespond_def failure_def)

theorem C7_validate_witness:
  "\<not> validatePDFFields
       [\<lparr>name = JNull, label = JString ''a'', type = JString ''text'', maxLength = None\<rparr>] \<and>
   fillAndRespond
     \<lparr>auth = True,
      requestJson = Inr \<lparr>pdfUrl = ''https://example.org/w9.pdf'', userInfo = ''Ann'', formType = None\<rparr>,
      fetchUrl = (\<lambda>url. Inr (True, ''200 OK'', PDFBytes [])),
      pdfParseText = (\<lambda>b. None),
      generateText = (\<lambda>p. Inr ''{}''),
      jsonParse = (\<lambda>s. Some (ParsedObject [])),
      pdfSave = (\<lambda>form. Some (PDFBytes form)),
      put = (\<lambda>b. Inr ''https://blob.example.org/filled.pdf'')\<rparr>
     \<lparr>pdfUrl = ''https://example.org/w9.pdf'', userInfo = ''Ann'', formType = None\<rparr>
     (PDFBytes []) []
     [\<lparr>name = JNull, label = JString ''a'', type = JString ''text'', maxLength = None\<rparr>]
   = (400, \<lparr>success = False, filledPdfUrl = None,
            message = ''Invalid PDF fields extracted'', responseFields = None\<rparr>) \<and>
   validatePDFFields
       [\<lparr>name = JString ''a'', label = JString ''a'', type = JString ''text'', maxLength = None\<rparr>]"
  using C7_validate_checks_types_only [of
      "[\<lparr>name = JNull, label = JString ''a'', type = JString ''text'', maxLength = None\<rparr>]"
      "\<lparr>auth = True,
      requestJson = Inr \<lparr>pdfUrl = ''https://example.org/w9.pdf'', userInfo = ''Ann'', formType = None\<rparr>,
      fetchUrl = (\<lambda>url. Inr (True, ''200 OK'', PDFBytes [])),
      pdfParseText = (\<lambda>b. None),
      generateText = (\<lambda>p. Inr ''{}''),
      jsonParse = (\<lambda>s. Some (ParsedObject [])),
      pdfSave = (\<lambda>form. Some (PDFBytes form)),
      put = (\<lambda>b. Inr ''https://blob.example.org/filled.pdf'')\<rparr>"
      "\<lparr>pdfUrl = ''https://example.org/w9.pdf'', userInfo = ''Ann'', formType = None\<rparr>"
      "PDFBytes []" "[]"]
    C7_validate_checks_types_only [of
      "[\<lparr>name = JString ''a'', label = JString ''a'', type = JString ''text'', maxLength = None\<rparr>]"]
  by simp

text \<open>
  C7 as stated fails: a descriptor with the empty name is accepted, and so is one whose kind
  is none of the kinds the extractor knows.
\<close>

theorem C7_validate_counterexample:
  "validatePDFFields
     [\<lparr>name = JString [], label = JString [], type = JString ''text'', maxLength = None\<rparr>] \<and>
   validatePDFFields
     [\<lparr>name = JString ''f1'', label = JString ''f1'', type = JString ''no such kind'',
       maxLength = None\<rparr>]"
  by (simp add: validatePDFFields_def)




end
